theory Spec2Isabelle
  imports Complex_Main
begin

section \<open>Knowledge graph view: data model\<close>

text \<open>
  The embedding follows \<^verbatim>\<open>static/js/knowledge-graph.js\<close>. JSON values whose
  truthiness the script tests are kept as a small value type; numbers are exact reals
  (the script's doubles are idealised, NaN cannot come out of a JSON document).
\<close>

datatype jsval = JUndefined | JNull | JBool bool | JNum real | JStr string

fun truthy :: "jsval \<Rightarrow> bool" where
  "truthy JUndefined = False"
| "truthy JNull = False"
| "truthy (JBool b) = b"
| "truthy (JNum r) = (r \<noteq> 0)"
| "truthy (JStr s) = (s \<noteq> [])"

text \<open>The operator \<^verbatim>\<open>a || b\<close>: the left operand itself when it is truthy.\<close>

definition js_or :: "jsval \<Rightarrow> jsval \<Rightarrow> jsval" where
  "js_or a b = (if truthy a then a else b)"

text \<open>The object \<^verbatim>\<open>links\<close> of a record: each kind is a sequence or is absent.\<close>

record link_map =
  publications :: "string list option"
  datasets :: "string list option"
  related :: "string list option"

text \<open>The literal \<^verbatim>\<open>{}\<close>.\<close>

definition empty_links :: link_map where
  "empty_links = \<lparr>publications = None, datasets = None, related = None\<rparr>"

record graph_hints =
  g_size :: jsval
  g_connections :: jsval

record experiment_rec =
  e_id :: string
  e_title :: string
  e_category :: string
  e_status :: jsval
  e_duration :: jsval
  e_mission :: jsval
  e_summary :: jsval
  e_description :: jsval
  e_graphData :: "graph_hints option"
  e_links :: "link_map option"

text \<open>
  A node object. The position fields are absent (\<open>None\<close>, for both
  \<^verbatim>\<open>undefined\<close> and \<^verbatim>\<open>null\<close>) or hold a number.
\<close>

record node =
  n_id :: string
  n_title :: string
  n_category :: string
  n_status :: jsval
  n_duration :: jsval
  n_mission :: jsval
  n_description :: jsval
  n_size :: jsval
  n_connections :: jsval
  n_links :: link_map
  n_x :: "real option"
  n_y :: "real option"
  n_fx :: "real option"
  n_fy :: "real option"

text \<open>What a run can raise: the \<^verbatim>\<open>TypeError\<close> of calling something that is not a function,
  and the error the layout library throws for a link to an id that no simulation node
  has.\<close>

datatype error = TypeError | NodeNotFound string

text \<open>The object literal \<^verbatim>\<open>{ source: exp.id, target: relatedId }\<close> the data adapter
  pushes: both fields are ids.\<close>

record edge =
  source :: string
  target :: string

text \<open>
  The live link object. The force layout hands the link objects to the link force of the
  layout library, which replaces an endpoint that is an id by the node object with that
  id; the tick handler of the script reads \<^verbatim>\<open>d.source.x\<close> of such a link. A field of
  a link object therefore holds an id or a reference to a node object.
\<close>

datatype endpoint = EId string | ENode nat

record link =
  l_source :: endpoint
  l_target :: endpoint

definition linkObject :: "edge \<Rightarrow> link" where
  "linkObject e = \<lparr>l_source = EId (source e), l_target = EId (target e)\<rparr>"

text \<open>
  The simulation handle of the layout library. The library is not part of the
  repository; of the handle, the node and link arrays given to it (as references),
  whether it is stepping, and the target temperature the script sets are recorded. What
  the library writes into the node and link objects is part of the layouts below.
\<close>

record sim =
  sim_nodes :: "nat list"
  sim_links :: "nat list"
  alphaTarget :: real
  running :: bool

text \<open>What is drawn inside the group \<^verbatim>\<open>g\<close>: one list of elements per appended group.
  Lines are bound to link objects, circles and labels to node objects, each given by its
  reference.\<close>

datatype element = Line nat | Circle nat | Label nat

text \<open>
  The module state. Node objects are shared between the array \<^verbatim>\<open>nodes\<close> and every
  filtered array, and the layouts write into them: \<open>nodes\<close> is the store of node
  objects, and a reference to a node is its position in the store. The same holds for the
  link objects and \<open>links\<close>.
\<close>

record graph_state =
  nodes :: "node list"
  links :: "link list"
  currentFilter :: string
  currentLayout :: string
  simulation :: "sim option"
  scene :: "element list list"
  clientWidth :: nat
  clientHeight :: nat

record drag_event =
  ev_active :: nat
  ev_x :: real
  ev_y :: real

record button =
  textContent :: string
  onclick :: "string option"
  disabled :: bool

text \<open>The elements of the detail panel that \<^verbatim>\<open>showNodeDetails\<close> writes: each text
  field holds the value assigned to it.\<close>

record panel =
  nodeTitle :: string
  nodeDescription :: jsval
  nodeStatus :: jsval
  nodeDuration :: jsval
  nodeMission :: string
  viewLinkBtn :: button
  panelDisplay :: string

section \<open>Data adapter\<close>

definition buildNode :: "experiment_rec \<Rightarrow> node" where
  "buildNode xp =
     \<lparr>n_id = e_id xp,
      n_title = e_title xp,
      n_category = e_category xp,
      n_status = e_status xp,
      n_duration = e_duration xp,
      n_mission = e_mission xp,
      n_description =
        js_or (js_or (e_summary xp) (e_description xp)) (JStr ''No description available.''),
      n_size =
        js_or (case e_graphData xp of None \<Rightarrow> JUndefined | Some gd \<Rightarrow> g_size gd) (JNum 15),
      n_connections =
        js_or (case e_graphData xp of None \<Rightarrow> JUndefined | Some gd \<Rightarrow> g_connections gd)
          (JNum 3),
      n_links = (case e_links xp of None \<Rightarrow> empty_links | Some lm \<Rightarrow> lm),
      n_x = None, n_y = None, n_fx = None, n_fy = None\<rparr>"

text \<open>The inner \<^verbatim>\<open>forEach\<close> over the related ids of one record.\<close>

fun relatedLinks :: "experiment_rec list \<Rightarrow> string \<Rightarrow> string list \<Rightarrow> edge list" where
  "relatedLinks experiments src [] = []"
| "relatedLinks experiments src (relatedId # rest) =
     (if find (\<lambda>e. e_id e = relatedId) experiments \<noteq> None
      then \<lparr>source = src, target = relatedId\<rparr> # relatedLinks experiments src rest
      else relatedLinks experiments src rest)"

text \<open>The body of the outer \<^verbatim>\<open>forEach\<close>: the edges one record pushes.\<close>

definition recordLinks :: "experiment_rec list \<Rightarrow> experiment_rec \<Rightarrow> edge list" where
  "recordLinks experiments xp =
     (case e_links xp of
        None \<Rightarrow> []
      | Some lm \<Rightarrow>
          (case related lm of
             None \<Rightarrow> []
           | Some rel \<Rightarrow> relatedLinks experiments (e_id xp) rel))"

definition buildLinks :: "experiment_rec list \<Rightarrow> edge list" where
  "buildLinks experiments = concat (map (recordLinks experiments) experiments)"

section \<open>Filtering\<close>

text \<open>The array \<^verbatim>\<open>nodes\<close> itself: every reference of the store, in order.\<close>

definition allRefs :: "node list \<Rightarrow> nat list" where
  "allRefs ns = [0..<length ns]"

definition filteredNodes :: "node list \<Rightarrow> string \<Rightarrow> nat list" where
  "filteredNodes ns flt =
     (if flt \<noteq> ''all'' then filter (\<lambda>r. n_category (ns ! r) = flt) (allRefs ns)
      else allRefs ns)"

text \<open>The array \<^verbatim>\<open>links\<close> itself: every reference of the link store, in order.\<close>

definition allLinkRefs :: "link list \<Rightarrow> nat list" where
  "allLinkRefs ls = [0..<length ls]"

text \<open>\<^verbatim>\<open>nodeIds.has(v)\<close> on the set of the ids of the filtered nodes: a node object is
  not an id, so it is never in the set.\<close>

fun hasId :: "string set \<Rightarrow> endpoint \<Rightarrow> bool" where
  "hasId nodeIds (EId i) = (i \<in> nodeIds)"
| "hasId nodeIds (ENode r) = False"

definition filteredLinks :: "node list \<Rightarrow> link list \<Rightarrow> string \<Rightarrow> nat list" where
  "filteredLinks ns ls flt =
     (if flt \<noteq> ''all''
      then (let nodeIds = set (map (\<lambda>r. n_id (ns ! r)) (filteredNodes ns flt))
            in filter (\<lambda>k. hasId nodeIds (l_source (ls ! k)) \<and> hasId nodeIds (l_target (ls ! k)))
                 (allLinkRefs ls))
      else allLinkRefs ls)"

section \<open>Layouts\<close>

text \<open>\<^verbatim>\<open>[...new Set(xs)]\<close>: the distinct values in order of first insertion.\<close>

definition setAdd :: "'a list \<Rightarrow> 'a \<Rightarrow> 'a list" where
  "setAdd acc v = (if v \<in> set acc then acc else acc @ [v])"

definition newSet :: "'a list \<Rightarrow> 'a list" where
  "newSet xs = foldl setAdd [] xs"

text \<open>\<^verbatim>\<open>Array.prototype.indexOf\<close>: the first position of the value, or -1.\<close>

fun indexOf :: "'a list \<Rightarrow> 'a \<Rightarrow> int" where
  "indexOf [] v = - 1"
| "indexOf (x # xs) v =
     (if x = v then 0 else (let r = indexOf xs v in if r < 0 then - 1 else r + 1))"

text \<open>The array \<^verbatim>\<open>categories\<close> of the two static layouts:
  \<^verbatim>\<open>[...new Set(filteredNodes.map(n => n.category))]\<close>.\<close>

definition categoriesOf :: "node list \<Rightarrow> nat list \<Rightarrow> string list" where
  "categoriesOf ns fNodes = newSet (map (\<lambda>r. n_category (ns ! r)) fNodes)"

text \<open>\<^verbatim>\<open>filteredNodes.filter(n => n.category === category)\<close>.\<close>

definition categoryNodes :: "node list \<Rightarrow> nat list \<Rightarrow> string \<Rightarrow> nat list" where
  "categoryNodes ns fNodes category = filter (\<lambda>r. n_category (ns ! r) = category) fNodes"

text \<open>The store after \<^verbatim>\<open>node.fx = a; node.fy = b\<close> on the node referenced by \<open>r\<close>.\<close>

definition setPin :: "nat \<Rightarrow> real option \<Rightarrow> real option \<Rightarrow> node list \<Rightarrow> node list" where
  "setPin r a b ns = ns[r := (ns ! r)\<lparr>n_fx := a, n_fy := b\<rparr>]"

fun clearPins :: "nat list \<Rightarrow> node list \<Rightarrow> node list" where
  "clearPins [] ns = ns"
| "clearPins (r # rs) ns = clearPins rs (setPin r None None ns)"

text \<open>
  \<^verbatim>\<open>d3.forceSimulation(filteredNodes)\<close>: the library gives a position to every node of
  the array that has none. The position it gives to the node at index \<open>i\<close> of the array
  is the parameter \<open>place i\<close>.
\<close>

fun placeNodes :: "(nat \<Rightarrow> real \<times> real) \<Rightarrow> nat \<Rightarrow> nat list \<Rightarrow> node list \<Rightarrow> node list" where
  "placeNodes place i [] ns = ns"
| "placeNodes place i (r # rs) ns =
     placeNodes place (Suc i) rs
       (if n_x (ns ! r) = None \<or> n_y (ns ! r) = None
        then ns[r := (ns ! r)\<lparr>n_x := Some (fst (place i)), n_y := Some (snd (place i))\<rparr>]
        else ns)"

text \<open>
  \<^verbatim>\<open>d3.forceLink(filteredLinks).id(d => d.id)\<close>, when the force is given to the
  simulation: the library looks the id of an endpoint up among the simulation nodes (of
  two nodes with one id the later one), stores the node object in its place, and throws
  for an id that no simulation node has. An endpoint that is an object already is kept.
  The link objects before the failing one keep what was stored into them.
\<close>

definition findNode :: "node list \<Rightarrow> nat list \<Rightarrow> string \<Rightarrow> nat option" where
  "findNode ns simNodes i =
     (case filter (\<lambda>r. n_id (ns ! r) = i) simNodes of
        [] \<Rightarrow> None
      | r # rs \<Rightarrow> Some (last (r # rs)))"

fun resolveEnd :: "node list \<Rightarrow> nat list \<Rightarrow> endpoint \<Rightarrow> error + endpoint" where
  "resolveEnd ns simNodes (ENode r) = Inr (ENode r)"
| "resolveEnd ns simNodes (EId i) =
     (case findNode ns simNodes i of
        None \<Rightarrow> Inl (NodeNotFound i)
      | Some r \<Rightarrow> Inr (ENode r))"

fun resolveLinks :: "node list \<Rightarrow> nat list \<Rightarrow> nat list \<Rightarrow> link list \<Rightarrow> error option \<times> link list" where
  "resolveLinks ns simNodes [] ls = (None, ls)"
| "resolveLinks ns simNodes (k # ks) ls =
     (case resolveEnd ns simNodes (l_source (ls ! k)) of
        Inl e \<Rightarrow> (Some e, ls)
      | Inr a \<Rightarrow>
          (case resolveEnd ns simNodes (l_target (ls ! k)) of
             Inl e \<Rightarrow> (Some e, ls[k := (ls ! k)\<lparr>l_source := a\<rparr>])
           | Inr b \<Rightarrow> resolveLinks ns simNodes ks (ls[k := (ls ! k)\<lparr>l_source := a, l_target := b\<rparr>])))"

text \<open>
  The force layout. The result is the error raised, if any, and the module state it
  leaves: when the link force throws, the group has been emptied, the pins cleared and
  the nodes placed, and neither the variable \<^verbatim>\<open>simulation\<close> nor the scene has been
  written.
\<close>

definition createForceLayout :: "(nat \<Rightarrow> real \<times> real) \<Rightarrow> graph_state \<Rightarrow> error option \<times> graph_state" where
  "createForceLayout place s =
     (let fNodes = filteredNodes (nodes s) (currentFilter s);
          fLinks = filteredLinks (nodes s) (links s) (currentFilter s);
          cleared = clearPins fNodes (nodes s);
          placed = placeNodes place 0 fNodes cleared;
          resolved = resolveLinks placed fNodes fLinks (links s)
      in case fst resolved of
           Some e \<Rightarrow> (Some e, s\<lparr>nodes := placed, links := snd resolved, scene := []\<rparr>)
         | None \<Rightarrow>
             (None,
              s\<lparr>nodes := placed,
                links := snd resolved,
                simulation :=
                  Some \<lparr>sim_nodes = fNodes, sim_links = fLinks, alphaTarget = 0, running = True\<rparr>,
                scene := [map Line fLinks, map Circle fNodes, map Label fNodes]\<rparr>))"

definition drawStaticLayout :: "nat list \<Rightarrow> element list list \<Rightarrow> element list list" where
  "drawStaticLayout fNodes sc = sc @ [map Circle fNodes, map Label fNodes]"

text \<open>
  The loop of the radial layout. \<open>rnd j\<close> is the value of the \<open>j\<close>-th call of
  \<^verbatim>\<open>Math.random()\<close>; \<open>angleStep\<close> is passed in as the script computed it.
\<close>

fun radialLoop ::
  "real \<Rightarrow> real \<Rightarrow> real \<Rightarrow> string list \<Rightarrow> (nat \<Rightarrow> real) \<Rightarrow> nat \<Rightarrow> nat list \<Rightarrow> node list \<Rightarrow> node list"
where
  "radialLoop centerX centerY angleStep categories rnd j [] ns = ns"
| "radialLoop centerX centerY angleStep categories rnd j (r # rs) ns =
     (let categoryIndex = indexOf categories (n_category (ns ! r));
          angle = of_int categoryIndex * angleStep;
          radius = 200 + rnd j * 100
      in radialLoop centerX centerY angleStep categories rnd (Suc j) rs
           (setPin r (Some (centerX + radius * cos angle)) (Some (centerY + radius * sin angle)) ns))"

definition createRadialLayout :: "(nat \<Rightarrow> real) \<Rightarrow> graph_state \<Rightarrow> graph_state" where
  "createRadialLayout rnd s =
     (let width = real (clientWidth s);
          height = real (clientHeight s);
          centerX = width / 2;
          centerY = height / 2;
          fNodes = filteredNodes (nodes s) (currentFilter s);
          categories = categoriesOf (nodes s) fNodes;
          angleStep = (2 * pi) / real (length categories)
      in s\<lparr>nodes := radialLoop centerX centerY angleStep categories rnd 0 fNodes (nodes s),
           scene := drawStaticLayout fNodes []\<rparr>)"

text \<open>The inner loop of the hierarchical layout, over the members of one category.\<close>

fun rowLoop :: "real \<Rightarrow> real \<Rightarrow> nat \<Rightarrow> nat list \<Rightarrow> node list \<Rightarrow> node list" where
  "rowLoop colX rowHeight nodeIndex [] ns = ns"
| "rowLoop colX rowHeight nodeIndex (r # rs) ns =
     rowLoop colX rowHeight (Suc nodeIndex) rs
       (setPin r (Some colX) (Some (rowHeight * (real nodeIndex + 1))) ns)"

text \<open>The outer loop, over the categories.\<close>

fun columnLoop :: "real \<Rightarrow> real \<Rightarrow> nat list \<Rightarrow> nat \<Rightarrow> string list \<Rightarrow> node list \<Rightarrow> node list" where
  "columnLoop columnWidth height fNodes catIndex [] ns = ns"
| "columnLoop columnWidth height fNodes catIndex (category # rest) ns =
     (let members = categoryNodes ns fNodes category;
          rowHeight = height / (real (length members) + 1)
      in columnLoop columnWidth height fNodes (Suc catIndex) rest
           (rowLoop (columnWidth * (real catIndex + 1)) rowHeight 0 members ns))"

definition createHierarchicalLayout :: "graph_state \<Rightarrow> graph_state" where
  "createHierarchicalLayout s =
     (let width = real (clientWidth s);
          height = real (clientHeight s);
          fNodes = filteredNodes (nodes s) (currentFilter s);
          categories = categoriesOf (nodes s) fNodes;
          columnWidth = width / (real (length categories) + 1)
      in s\<lparr>nodes := columnLoop columnWidth height fNodes 0 categories (nodes s),
           scene := drawStaticLayout fNodes []\<rparr>)"

section \<open>View state\<close>

definition stopSimulation :: "graph_state \<Rightarrow> graph_state" where
  "stopSimulation s =
     (case simulation s of
        None \<Rightarrow> s
      | Some sm \<Rightarrow> s\<lparr>simulation := Some (sm\<lparr>running := False\<rparr>)\<rparr>)"

definition updateLayout ::
  "(nat \<Rightarrow> real \<times> real) \<Rightarrow> (nat \<Rightarrow> real) \<Rightarrow> graph_state \<Rightarrow> error option \<times> graph_state"
where
  "updateLayout place rnd s =
     (let s1 = stopSimulation s
      in if currentLayout s1 = ''force'' then createForceLayout place s1
         else if currentLayout s1 = ''radial'' then (None, createRadialLayout rnd s1)
         else if currentLayout s1 = ''hierarchical'' then (None, createHierarchicalLayout s1)
         else (None, s1))"

text \<open>The change listeners of the two selectors.\<close>

definition filterChange ::
  "string \<Rightarrow> (nat \<Rightarrow> real \<times> real) \<Rightarrow> (nat \<Rightarrow> real) \<Rightarrow> graph_state \<Rightarrow> error option \<times> graph_state"
where
  "filterChange v place rnd s = updateLayout place rnd (s\<lparr>currentFilter := v\<rparr>)"

definition layoutChange ::
  "string \<Rightarrow> (nat \<Rightarrow> real \<times> real) \<Rightarrow> (nat \<Rightarrow> real) \<Rightarrow> graph_state \<Rightarrow> error option \<times> graph_state"
where
  "layoutChange v place rnd s = updateLayout place rnd (s\<lparr>currentLayout := v\<rparr>)"

definition initializeGraph ::
  "(nat \<Rightarrow> real \<times> real) \<Rightarrow> experiment_rec list \<Rightarrow> nat \<Rightarrow> nat \<Rightarrow> error option \<times> graph_state"
where
  "initializeGraph place experiments w h =
     createForceLayout place
       \<lparr>nodes = map buildNode experiments,
        links = map linkObject (buildLinks experiments),
        currentFilter = ''all'',
        currentLayout = ''force'',
        simulation = None,
        scene = [],
        clientWidth = w,
        clientHeight = h\<rparr>"

text \<open>
  One step of a running simulation, made by the library between the events of the page:
  a pinned coordinate is copied into the position, a free one is moved, to the parameter
  \<open>move r\<close> for the node \<open>r\<close>. The tick handler of the script only copies positions to
  the drawn elements.
\<close>

fun stepNodes :: "(nat \<Rightarrow> real \<times> real) \<Rightarrow> nat list \<Rightarrow> node list \<Rightarrow> node list" where
  "stepNodes move [] ns = ns"
| "stepNodes move (r # rs) ns =
     stepNodes move rs
       (ns[r := (ns ! r)
          \<lparr>n_x := (case n_fx (ns ! r) of None \<Rightarrow> Some (fst (move r)) | Some v \<Rightarrow> Some v),
           n_y := (case n_fy (ns ! r) of None \<Rightarrow> Some (snd (move r)) | Some v \<Rightarrow> Some v)\<rparr>])"

definition simulationTick :: "(nat \<Rightarrow> real \<times> real) \<Rightarrow> graph_state \<Rightarrow> graph_state" where
  "simulationTick move s =
     (case simulation s of
        None \<Rightarrow> s
      | Some sm \<Rightarrow> if running sm then s\<lparr>nodes := stepNodes move (sim_nodes sm) (nodes s)\<rparr> else s)"

section \<open>Drag handlers\<close>

definition dragstarted :: "drag_event \<Rightarrow> nat \<Rightarrow> graph_state \<Rightarrow> graph_state" where
  "dragstarted event d s =
     (let s1 = (if ev_active event = 0
                then (case simulation s of
                        None \<Rightarrow> s
                      | Some sm \<Rightarrow> s\<lparr>simulation := Some (sm\<lparr>alphaTarget := 3 / 10, running := True\<rparr>)\<rparr>)
                else s)
      in s1\<lparr>nodes := setPin d (n_x (nodes s1 ! d)) (n_y (nodes s1 ! d)) (nodes s1)\<rparr>)"

definition dragged :: "drag_event \<Rightarrow> nat \<Rightarrow> graph_state \<Rightarrow> graph_state" where
  "dragged event d s = s\<lparr>nodes := setPin d (Some (ev_x event)) (Some (ev_y event)) (nodes s)\<rparr>"

definition dragended :: "drag_event \<Rightarrow> nat \<Rightarrow> graph_state \<Rightarrow> graph_state" where
  "dragended event d s =
     (if ev_active event = 0
      then (case simulation s of
              None \<Rightarrow> s
            | Some sm \<Rightarrow> s\<lparr>simulation := Some (sm\<lparr>alphaTarget := 0\<rparr>)\<rparr>)
      else s)"

section \<open>Detail panel\<close>

text \<open>\<^verbatim>\<open>xs?.[0]\<close> on an optional sequence: \<open>None\<close> is \<^verbatim>\<open>undefined\<close>.\<close>

definition firstEntry :: "string list option \<Rightarrow> string option" where
  "firstEntry xs = (case xs of None \<Rightarrow> None | Some [] \<Rightarrow> None | Some (u # _) \<Rightarrow> Some u)"

definition truthyStr :: "string option \<Rightarrow> bool" where
  "truthyStr v = (case v of None \<Rightarrow> False | Some u \<Rightarrow> u \<noteq> [])"

definition linkToOpen :: "node \<Rightarrow> string option" where
  "linkToOpen nd =
     (let p = firstEntry (publications (n_links nd))
      in if truthyStr p then p else firstEntry (datasets (n_links nd)))"

text \<open>
  \<^verbatim>\<open>node.mission?.toUpperCase() || "N/A"\<close>. A mission that is absent gives the
  placeholder; a string is put in upper case by the string method, the parameter
  \<open>toUpperCase\<close>; any other value has no such method, and calling it raises.
\<close>

fun missionText :: "(string \<Rightarrow> string) \<Rightarrow> jsval \<Rightarrow> error + string" where
  "missionText toUpperCase JUndefined = Inr ''N/A''"
| "missionText toUpperCase JNull = Inr ''N/A''"
| "missionText toUpperCase (JStr m) =
     Inr (if toUpperCase m \<noteq> [] then toUpperCase m else ''N/A'')"
| "missionText toUpperCase (JNum x) = Inl TypeError"
| "missionText toUpperCase (JBool b) = Inl TypeError"

text \<open>The panel after \<^verbatim>\<open>showNodeDetails(node)\<close>, and the error raised, if any: the
  statements before the failing one have written their fields. In the button,
  \<open>onclick\<close> holds the address the handler opens, \<open>None\<close> is the \<^verbatim>\<open>null\<close> handler.\<close>

definition showNodeDetails :: "(string \<Rightarrow> string) \<Rightarrow> node \<Rightarrow> panel \<Rightarrow> error option \<times> panel" where
  "showNodeDetails toUpperCase nd p =
     (let p1 = p\<lparr>nodeTitle := n_title nd, nodeDescription := n_description nd,
                 nodeStatus := n_status nd, nodeDuration := n_duration nd\<rparr>
      in case missionText toUpperCase (n_mission nd) of
           Inl e \<Rightarrow> (Some e, p1)
         | Inr m \<Rightarrow>
             (None,
              p1\<lparr>nodeMission := m,
                 viewLinkBtn :=
                   (if truthyStr (linkToOpen nd)
                    then \<lparr>textContent = ''View Publication'', onclick = linkToOpen nd,
                           disabled = False\<rparr>
                    else \<lparr>textContent = ''View Publication'', onclick = None,
                           disabled = True\<rparr>),
                 panelDisplay := ''block''\<rparr>))"

section \<open>The edge invariant\<close>

text \<open>An endpoint is known when it is the id of a node or a reference into the node
  store; the links are known when both endpoints of every link are.\<close>

fun knownEnd :: "node list \<Rightarrow> endpoint \<Rightarrow> bool" where
  "knownEnd ns (EId i) = (i \<in> set (map n_id ns))"
| "knownEnd ns (ENode r) = (r < length ns)"

definition linksKnown :: "graph_state \<Rightarrow> bool" where
  "linksKnown s =
     list_all (\<lambda>l. knownEnd (nodes s) (l_source l) \<and> knownEnd (nodes s) (l_target l)) (links s)"

section \<open>What the scene holds\<close>







section \<open>Example data\<close>

text \<open>A record with the given id, category and related ids, and nothing optional.\<close>

definition exampleRecord :: "string \<Rightarrow> string \<Rightarrow> string list \<Rightarrow> experiment_rec" where
  "exampleRecord i c rel =
     \<lparr>e_id = i, e_title = i, e_category = c, e_status = JStr ''completed'',
      e_duration = JStr ''30 days'', e_mission = JStr ''iss'', e_summary = JUndefined,
      e_description = JUndefined, e_graphData = None,
      e_links = Some \<lparr>publications = None, datasets = None, related = Some rel\<rparr>\<rparr>"

text \<open>Three records: 1 and 3 of category A, 2 of category B; 1 is related to 2, to 3
  and to an id that no record has.\<close>

definition exampleRecords :: "experiment_rec list" where
  "exampleRecords =
     [exampleRecord ''1'' ''A'' [''2'', ''3'', ''9''],
      exampleRecord ''2'' ''B'' [],
      exampleRecord ''3'' ''A'' []]"

text \<open>A node with the given publication and data set addresses.\<close>

definition exampleNode :: "string list option \<Rightarrow> string list option \<Rightarrow> node" where
  "exampleNode pubs dsets =
     (buildNode (exampleRecord ''1'' ''A'' []))
       \<lparr>n_links := \<lparr>publications = pubs, datasets = dsets, related = None\<rparr>\<rparr>"

text \<open>The state after \<^verbatim>\<open>initializeGraph\<close> on the three records, in a viewport of the
  given size, when the library first puts every node at the origin.\<close>

definition exampleStart :: "nat \<Rightarrow> nat \<Rightarrow> graph_state" where
  "exampleStart w h = snd (initializeGraph (\<lambda>i. (0, 0)) exampleRecords w h)"

text \<open>A detail panel that shows nothing yet.\<close>

definition emptyPanel :: panel where
  "emptyPanel =
     \<lparr>nodeTitle = [], nodeDescription = JUndefined, nodeStatus = JUndefined,
      nodeDuration = JUndefined, nodeMission = [],
      viewLinkBtn = \<lparr>textContent = [], onclick = None, disabled = False\<rparr>,
      panelDisplay = ''none''\<rparr>"

section \<open>Data adapter: edges and defaults\<close>

lemma relatedLinks_eq:
  "relatedLinks experiments src rel =
     map (\<lambda>r. \<lparr>source = src, target = r\<rparr>) (filter (\<lambda>r. r \<in> e_id ` set experiments) rel)"
proof -
  have f: "\<And>r. (find (\<lambda>e. e_id e = r) experiments \<noteq> None) = (r \<in> e_id ` set experiments)"
    by (auto simp: find_None_iff)
  show ?thesis by (induction rel) (simp_all add: f del: not_None_eq)
qed

lemma buildNode_ids: "n_id ` set (map buildNode experiments) = e_id ` set experiments"
  by (auto simp: buildNode_def image_iff)

lemma buildLinks_source: "l \<in> set (buildLinks experiments) \<Longrightarrow> source l \<in> e_id ` set experiments"
  by (auto simp: buildLinks_def recordLinks_def relatedLinks_eq split: option.splits)

lemma buildLinks_target: "l \<in> set (buildLinks experiments) \<Longrightarrow> target l \<in> e_id ` set experiments"
  by (auto simp: buildLinks_def recordLinks_def relatedLinks_eq split: option.splits)

text \<open>
  C2. Every edge the data adapter builds has its source id and its target id among the
  ids of the nodes built from the same record list. A related id that no record has adds
  no edge: the loop over the related ids goes on with the remaining ids as if it were not
  there (the adapter has no failing branch), and an id that a record has adds exactly
  the edge from the record to it.
\<close>

theorem buildLinks_no_dangling:
  "(\<forall>l \<in> set (buildLinks experiments).
      source l \<in> n_id ` set (map buildNode experiments) \<and>
      target l \<in> n_id ` set (map buildNode experiments))
   \<and> (relatedId \<notin> n_id ` set (map buildNode experiments) \<longrightarrow>
        relatedLinks experiments src (relatedId # rest) = relatedLinks experiments src rest)
   \<and> (relatedId \<in> n_id ` set (map buildNode experiments) \<longrightarrow>
        relatedLinks experiments src (relatedId # rest) =
          \<lparr>source = src, target = relatedId\<rparr> # relatedLinks experiments src rest)"
  unfolding buildNode_ids
  by (simp add: buildLinks_source buildLinks_target relatedLinks_eq)

theorem buildLinks_no_dangling_witness:
  "buildLinks exampleRecords =
     [\<lparr>source = ''1'', target = ''2''\<rparr>, \<lparr>source = ''1'', target = ''3''\<rparr>]
   \<and> source \<lparr>source = ''1'', target = ''2''\<rparr> \<in> n_id ` set (map buildNode exampleRecords)
   \<and> target \<lparr>source = ''1'', target = ''2''\<rparr> \<in> n_id ` set (map buildNode exampleRecords)
   \<and> source \<lparr>source = ''1'', target = ''3''\<rparr> \<in> n_id ` set (map buildNode exampleRecords)
   \<and> target \<lparr>source = ''1'', target = ''3''\<rparr> \<in> n_id ` set (map buildNode exampleRecords)
   \<and> ''9'' \<notin> n_id ` set (map buildNode exampleRecords)
   \<and> relatedLinks exampleRecords ''1'' [''9'', ''3''] = relatedLinks exampleRecords ''1'' [''3'']
   \<and> ''2'' \<in> n_id ` set (map buildNode exampleRecords)
   \<and> relatedLinks exampleRecords ''1'' [''2'', ''9''] =
        \<lparr>source = ''1'', target = ''2''\<rparr> # relatedLinks exampleRecords ''1'' [''9'']"
proof -
  have a: "''9'' \<notin> n_id ` set (map buildNode exampleRecords)"
    by (simp add: exampleRecords_def exampleRecord_def buildNode_def)
  have b: "''2'' \<in> n_id ` set (map buildNode exampleRecords)"
    by (simp add: exampleRecords_def exampleRecord_def buildNode_def)
  have c: "buildLinks exampleRecords =
     [\<lparr>source = ''1'', target = ''2''\<rparr>, \<lparr>source = ''1'', target = ''3''\<rparr>]"
    by (simp add: buildLinks_def recordLinks_def exampleRecords_def exampleRecord_def)
  have m: "\<lparr>source = ''1'', target = ''2''\<rparr> \<in> set (buildLinks exampleRecords)"
    "\<lparr>source = ''1'', target = ''3''\<rparr> \<in> set (buildLinks exampleRecords)"
    by (simp_all add: c)
  from a b c m
    buildLinks_no_dangling [of exampleRecords "''9''" "''1''" "[''3'']"]
    buildLinks_no_dangling [of exampleRecords "''2''" "''1''" "[''9'']"]
  show ?thesis by blast
qed

text \<open>
  C10. The defaults of the data adapter are taken on every falsy value, not only on an
  absent one: a size, a connection count or a summary that is falsy gives the same node
  as the record without that field; in particular the size is then 15, the connection
  count 3, and the description is the record's description when that is truthy and the
  text "No description available." otherwise.
\<close>

theorem buildNode_falsy_defaults:
  "\<not> truthy v \<Longrightarrow>
     buildNode (xp\<lparr>e_graphData := Some (gd\<lparr>g_size := v\<rparr>)\<rparr>) =
       buildNode (xp\<lparr>e_graphData := Some (gd\<lparr>g_size := JUndefined\<rparr>)\<rparr>)
   \<and> n_size (buildNode (xp\<lparr>e_graphData := Some (gd\<lparr>g_size := v\<rparr>)\<rparr>)) = JNum 15
   \<and> n_size (buildNode (xp\<lparr>e_graphData := None\<rparr>)) = JNum 15
   \<and> buildNode (xp\<lparr>e_graphData := Some (gd\<lparr>g_connections := v\<rparr>)\<rparr>) =
       buildNode (xp\<lparr>e_graphData := Some (gd\<lparr>g_connections := JUndefined\<rparr>)\<rparr>)
   \<and> n_connections (buildNode (xp\<lparr>e_graphData := Some (gd\<lparr>g_connections := v\<rparr>)\<rparr>)) = JNum 3
   \<and> n_connections (buildNode (xp\<lparr>e_graphData := None\<rparr>)) = JNum 3
   \<and> buildNode (xp\<lparr>e_summary := v\<rparr>) = buildNode (xp\<lparr>e_summary := JUndefined\<rparr>)
   \<and> n_description (buildNode (xp\<lparr>e_summary := v\<rparr>)) =
       (if truthy (e_description xp) then e_description xp
        else JStr ''No description available.'')"
  by (simp add: buildNode_def js_or_def)

theorem buildNode_falsy_defaults_witness:
  "\<not> truthy (JNum 0) \<and> \<not> truthy (JStr '''')
   \<and> n_size (buildNode ((exampleRecord ''1'' ''A'' [])
        \<lparr>e_graphData := Some \<lparr>g_size = JNum 0, g_connections = JNum 7\<rparr>\<rparr>)) = JNum 15
   \<and> n_connections (buildNode ((exampleRecord ''1'' ''A'' [])
        \<lparr>e_graphData := Some \<lparr>g_size = JNum 20, g_connections = JNum 0\<rparr>\<rparr>)) = JNum 3
   \<and> n_description (buildNode ((exampleRecord ''1'' ''A'' [])
        \<lparr>e_summary := JStr '''', e_description := JStr ''grown in orbit''\<rparr>)) =
        JStr ''grown in orbit''
   \<and> n_description (buildNode ((exampleRecord ''1'' ''A'' [])\<lparr>e_summary := JStr ''''\<rparr>)) =
        JStr ''No description available.''"
proof -
  have z: "\<not> truthy (JNum 0)" and e: "\<not> truthy (JStr '''')"
    by simp_all
  from z e
    buildNode_falsy_defaults [OF z, where xp = "exampleRecord ''1'' ''A'' []"
      and gd = "\<lparr>g_size = JNum 20, g_connections = JNum 7\<rparr>"]
    buildNode_falsy_defaults [OF e, where xp = "(exampleRecord ''1'' ''A'' [])
      \<lparr>e_description := JStr ''grown in orbit''\<rparr>"
      and gd = "\<lparr>g_size = JNum 20, g_connections = JNum 7\<rparr>"]
    buildNode_falsy_defaults [OF e, where xp = "exampleRecord ''1'' ''A'' []"
      and gd = "\<lparr>g_size = JNum 20, g_connections = JNum 7\<rparr>"]
  show ?thesis by (simp add: exampleRecord_def buildNode_def js_or_def)
qed

section \<open>Filtering\<close>

lemma map_nth_filter:
  "map ((!) ns) (filter (\<lambda>r. P (ns ! r)) [0..<length ns]) = filter P ns"
proof -
  have "filter P (map ((!) ns) [0..<length ns]) =
      map ((!) ns) (filter (P \<circ> (!) ns) [0..<length ns])"
    by (rule filter_map)
  then show ?thesis by (simp add: map_nth comp_def)
qed

lemma filteredNodes_set:
  "set (filteredNodes ns flt) =
     {r. r < length ns \<and> (flt \<noteq> ''all'' \<longrightarrow> n_category (ns ! r) = flt)}"
  by (auto simp: filteredNodes_def allRefs_def)

lemma filteredNodes_distinct: "distinct (filteredNodes ns flt)"
  by (simp add: filteredNodes_def allRefs_def)

lemma filteredNodes_bound: "r \<in> set (filteredNodes ns flt) \<Longrightarrow> r < length ns"
  by (simp add: filteredNodes_set)

section \<open>Pins and the scene\<close>

lemma setPin_length: "length (setPin r a b ns) = length ns"
  by (simp add: setPin_def)

lemma setPin_nth:
  "i < length ns \<Longrightarrow>
     setPin r a b ns ! i = (if i = r then (ns ! i)\<lparr>n_fx := a, n_fy := b\<rparr> else ns ! i)"
  by (simp add: setPin_def)

lemma clearPins_length: "length (clearPins rs ns) = length ns"
  by (induction rs arbitrary: ns) (simp_all add: setPin_length)

lemma clearPins_nth:
  "i < length ns \<Longrightarrow>
     clearPins rs ns ! i =
       (if i \<in> set rs then (ns ! i)\<lparr>n_fx := None, n_fy := None\<rparr> else ns ! i)"
  by (induction rs arbitrary: ns) (auto simp: setPin_length setPin_nth)

lemma stopSimulation_fields:
  "nodes (stopSimulation s) = nodes s"
  "links (stopSimulation s) = links s"
  "currentFilter (stopSimulation s) = currentFilter s"
  "currentLayout (stopSimulation s) = currentLayout s"
  by (simp_all add: stopSimulation_def split: option.splits)


section \<open>What the layout library writes\<close>

lemma placeNodes_length: "length (placeNodes place j rs ns) = length ns"
  by (induction rs arbitrary: j ns) simp_all

lemma placeNodes_other: "i \<notin> set rs \<Longrightarrow> placeNodes place j rs ns ! i = ns ! i"
  by (induction rs arbitrary: j ns) auto

text \<open>Placing changes the two position fields only.\<close>

lemma placeNodes_field:
  assumes "\<And>nd a b. f (nd\<lparr>n_x := a, n_y := b\<rparr>) = f nd"
  shows "f (placeNodes place j rs ns ! i) = f (ns ! i)"
proof (induction rs arbitrary: j ns)
  case Nil
  show ?case by simp
next
  case (Cons r rs)
  have one: "f (ns[r := (ns ! r)\<lparr>n_x := a, n_y := b\<rparr>] ! i) = f (ns ! i)" for a b
  proof (cases "r < length ns")
    case True
    then show ?thesis by (cases "i = r") (simp_all add: assms)
  next
    case False
    then show ?thesis by (simp add: list_update_beyond)
  qed
  show ?case
    by (simp add: Cons.IH one)
qed

lemma placeNodes_member:
  assumes "distinct rs" and "\<forall>r \<in> set rs. r < length ns" and "n < length rs"
  shows "placeNodes place j rs ns ! (rs ! n) =
     (if n_x (ns ! (rs ! n)) = None \<or> n_y (ns ! (rs ! n)) = None
      then (ns ! (rs ! n))\<lparr>n_x := Some (fst (place (j + n))), n_y := Some (snd (place (j + n)))\<rparr>
      else ns ! (rs ! n))"
  using assms
proof (induction rs arbitrary: j ns n)
  case Nil
  from Nil.prems(3) show ?case by simp
next
  case (Cons r rs)
  let ?ns1 = "if n_x (ns ! r) = None \<or> n_y (ns ! r) = None
        then ns[r := (ns ! r)\<lparr>n_x := Some (fst (place j)), n_y := Some (snd (place j))\<rparr>]
        else ns"
  from Cons.prems have rnew: "r \<notin> set rs" and rlt: "r < length ns" by auto
  have step: "placeNodes place j (r # rs) ns = placeNodes place (Suc j) rs ?ns1"
    by simp
  have len1: "length ?ns1 = length ns" by simp
  show ?case
  proof (cases n)
    case 0
    have e1: "placeNodes place (Suc j) rs ?ns1 ! r = ?ns1 ! r"
      using rnew by (rule placeNodes_other)
    show ?thesis
      unfolding step using 0 e1 rlt by simp
  next
    case (Suc m)
    from Suc Cons.prems(3) have m: "m < length rs" by simp
    from Cons.prems(1) have d: "distinct rs" by simp
    from Cons.prems(2) have b: "\<forall>q \<in> set rs. q < length ?ns1"
      by (simp only: len1) simp
    from m have mem: "rs ! m \<in> set rs" by (rule nth_mem)
    with rnew have ne: "rs ! m \<noteq> r" by auto
    have same: "?ns1 ! (rs ! m) = ns ! (rs ! m)"
      using ne by simp
    have nth_eq: "(r # rs) ! n = rs ! m"
      using Suc by simp
    have idx: "Suc j + m = j + n"
      using Suc by simp
    show ?thesis
      unfolding step nth_eq Cons.IH [OF d b m] same idx by (rule refl)
  qed
qed

lemma clearPins_field:
  assumes "\<And>nd a b. f (nd\<lparr>n_fx := a, n_fy := b\<rparr>) = f nd"
  shows "f (clearPins rs ns ! i) = f (ns ! i)"
proof (induction rs arbitrary: ns)
  case Nil
  show ?case by simp
next
  case (Cons r rs)
  have one: "f (setPin r a b ns ! i) = f (ns ! i)" for a b
  proof (cases "r < length ns")
    case True
    then show ?thesis by (cases "i = r") (simp_all add: setPin_def assms)
  next
    case False
    then show ?thesis by (simp add: setPin_def list_update_beyond)
  qed
  show ?case
    by (simp add: Cons.IH one)
qed

subsection \<open>Resolving the link endpoints\<close>

lemma findNode_Some:
  "r \<in> set simNodes \<Longrightarrow> n_id (ns ! r) = i \<Longrightarrow> \<exists>q. findNode ns simNodes i = Some q"
proof -
  assume "r \<in> set simNodes" and "n_id (ns ! r) = i"
  then have m: "r \<in> set (filter (\<lambda>r. n_id (ns ! r) = i) simNodes)" by simp
  from length_pos_if_in_set [OF m]
  have "filter (\<lambda>r. n_id (ns ! r) = i) simNodes \<noteq> []"
    by simp
  then show ?thesis
    by (cases "filter (\<lambda>r. n_id (ns ! r) = i) simNodes") (simp_all add: findNode_def)
qed

lemma findNode_in:
  "findNode ns simNodes i = Some q \<Longrightarrow> q \<in> set simNodes \<and> n_id (ns ! q) = i"
proof -
  assume f: "findNode ns simNodes i = Some q"
  let ?xs = "filter (\<lambda>r. n_id (ns ! r) = i) simNodes"
  from f have ne: "?xs \<noteq> []" and q: "q = last ?xs"
    by (auto simp: findNode_def split: list.splits)
  from ne have "last ?xs \<in> set ?xs" by (rule last_in_set)
  with q show ?thesis by simp
qed

lemma resolveEnd_cases:
  "(\<exists>r. resolveEnd ns simNodes e = Inr (ENode r) \<and> (e = ENode r \<or> r \<in> set simNodes))
   \<or> (\<exists>i. e = EId i \<and> resolveEnd ns simNodes e = Inl (NodeNotFound i)
        \<and> i \<notin> (\<lambda>r. n_id (ns ! r)) ` set simNodes)"
proof (cases e)
  case (ENode r)
  then show ?thesis by simp
next
  case (EId i)
  show ?thesis
  proof (cases "findNode ns simNodes i")
    case None
    have "i \<notin> (\<lambda>r. n_id (ns ! r)) ` set simNodes"
    proof
      assume "i \<in> (\<lambda>r. n_id (ns ! r)) ` set simNodes"
      then obtain r where "r \<in> set simNodes" and "n_id (ns ! r) = i" by auto
      from findNode_Some [OF this] None show False by simp
    qed
    with EId None show ?thesis by simp
  next
    case (Some q)
    from findNode_in [OF Some] EId Some show ?thesis by simp
  qed
qed

lemma resolveLinks_length: "length (snd (resolveLinks ns simNodes ks ls)) = length ls"
  by (induction ks arbitrary: ls) (simp_all split: sum.splits)

lemma resolveLinks_ok:
  assumes "\<forall>k \<in> set ks. k < length ls
      \<and> (\<forall>i. l_source (ls ! k) = EId i \<longrightarrow> i \<in> (\<lambda>r. n_id (ns ! r)) ` set simNodes)
      \<and> (\<forall>i. l_target (ls ! k) = EId i \<longrightarrow> i \<in> (\<lambda>r. n_id (ns ! r)) ` set simNodes)"
  shows "fst (resolveLinks ns simNodes ks ls) = None"
  using assms
proof (induction ks arbitrary: ls)
  case Nil
  show ?case by simp
next
  case (Cons k ks)
  from Cons.prems have klt: "k < length ls"
    and src: "\<forall>i. l_source (ls ! k) = EId i \<longrightarrow> i \<in> (\<lambda>r. n_id (ns ! r)) ` set simNodes"
    and tgt: "\<forall>i. l_target (ls ! k) = EId i \<longrightarrow> i \<in> (\<lambda>r. n_id (ns ! r)) ` set simNodes"
    by simp_all
  from resolveEnd_cases [of ns simNodes "l_source (ls ! k)"] src
  obtain a where a: "resolveEnd ns simNodes (l_source (ls ! k)) = Inr (ENode a)"
    by blast
  from resolveEnd_cases [of ns simNodes "l_target (ls ! k)"] tgt
  obtain b where b: "resolveEnd ns simNodes (l_target (ls ! k)) = Inr (ENode b)"
    by blast
  let ?ls1 = "ls[k := (ls ! k)\<lparr>l_source := ENode a, l_target := ENode b\<rparr>]"
  have rest: "\<forall>q \<in> set ks. q < length ?ls1
      \<and> (\<forall>i. l_source (?ls1 ! q) = EId i \<longrightarrow> i \<in> (\<lambda>r. n_id (ns ! r)) ` set simNodes)
      \<and> (\<forall>i. l_target (?ls1 ! q) = EId i \<longrightarrow> i \<in> (\<lambda>r. n_id (ns ! r)) ` set simNodes)"
  proof
    fix q
    assume q: "q \<in> set ks"
    with Cons.prems have old: "q < length ls
        \<and> (\<forall>i. l_source (ls ! q) = EId i \<longrightarrow> i \<in> (\<lambda>r. n_id (ns ! r)) ` set simNodes)
        \<and> (\<forall>i. l_target (ls ! q) = EId i \<longrightarrow> i \<in> (\<lambda>r. n_id (ns ! r)) ` set simNodes)"
      by simp
    show "q < length ?ls1
        \<and> (\<forall>i. l_source (?ls1 ! q) = EId i \<longrightarrow> i \<in> (\<lambda>r. n_id (ns ! r)) ` set simNodes)
        \<and> (\<forall>i. l_target (?ls1 ! q) = EId i \<longrightarrow> i \<in> (\<lambda>r. n_id (ns ! r)) ` set simNodes)"
    proof (cases "q = k")
      case True
      with klt show ?thesis by simp
    next
      case False
      with old show ?thesis by simp
    qed
  qed
  from Cons.IH [OF rest] a b show ?case by simp
qed

text \<open>A property of endpoints that the nodes of the simulation have, and the endpoints of
  every link, is kept by every link, whether the library throws or not.\<close>

lemma resolveLinks_all:
  assumes "\<forall>l \<in> set ls. P (l_source l) \<and> P (l_target l)" and "\<forall>r \<in> set simNodes. P (ENode r)"
  shows "\<forall>l \<in> set (snd (resolveLinks ns simNodes ks ls)). P (l_source l) \<and> P (l_target l)"
  using assms(1)
proof (induction ks arbitrary: ls)
  case Nil
  then show ?case by simp
next
  case (Cons k ks)
  show ?case
  proof (cases "k < length ls")
    case False
    then have same: "ls[k := x] = ls" for x
      by (simp add: list_update_beyond)
    from Cons.IH [OF Cons.prems] Cons.prems show ?thesis
      by (simp add: same split: sum.splits)
  next
    case True
    then have mem: "ls ! k \<in> set ls" by (rule nth_mem)
    with Cons.prems have pk: "P (l_source (ls ! k))" "P (l_target (ls ! k))" by simp_all
    have res: "P x" if "resolveEnd ns simNodes e = Inr x" and "P e" for e x
      using resolveEnd_cases [of ns simNodes e] that assms(2) by auto
    have upd: "\<forall>l \<in> set (ls[k := v]). P (l_source l) \<and> P (l_target l)"
      if "P (l_source v)" and "P (l_target v)" for v
    proof
      fix l
      assume "l \<in> set (ls[k := v])"
      then have "l \<in> insert v (set ls)"
        using set_update_subset_insert [of ls k v] by blast
      with that Cons.prems show "P (l_source l) \<and> P (l_target l)" by auto
    qed
    show ?thesis
    proof (cases "resolveEnd ns simNodes (l_source (ls ! k))")
      case (Inl e)
      with Cons.prems show ?thesis by simp
    next
      case (Inr a)
      from res [OF Inr pk(1)] have pa: "P a" .
      show ?thesis
      proof (cases "resolveEnd ns simNodes (l_target (ls ! k))")
        case (Inl e)
        from upd [of "(ls ! k)\<lparr>l_source := a\<rparr>"] pa pk(2) Inr Inl show ?thesis
          by simp
      next
        case Inr2: (Inr b)
        from res [OF Inr2 pk(2)] have pb: "P b" .
        from upd [of "(ls ! k)\<lparr>l_source := a, l_target := b\<rparr>"] pa pb
        have "\<forall>l \<in> set (ls[k := (ls ! k)\<lparr>l_source := a, l_target := b\<rparr>]).
            P (l_source l) \<and> P (l_target l)"
          by simp
        from Cons.IH [OF this] Inr Inr2 show ?thesis by simp
      qed
    qed
  qed
qed

text \<open>A link whose endpoints are node objects keeps them.\<close>

lemma resolveLinks_keeps_objects:
  assumes "k < length ls" and "l_source (ls ! k) = ENode a" and "l_target (ls ! k) = ENode b"
  shows "snd (resolveLinks ns simNodes ks ls) ! k = ls ! k"
  using assms
proof (induction ks arbitrary: ls)
  case Nil
  show ?case by simp
next
  case (Cons q ks)
  show ?case
  proof (cases "q = k")
    case True
    have "ls[k := (ls ! k)\<lparr>l_source := ENode a, l_target := ENode b\<rparr>] = ls"
      using Cons.prems by (simp add: list_update_same_conv)
    with Cons.IH [OF Cons.prems] True Cons.prems show ?thesis by simp
  next
    case False
    have keep: "ls[q := v] ! k = ls ! k" for v
      using False by simp
    have len: "k < length (ls[q := v])" for v
      using Cons.prems(1) by simp
    show ?thesis
    proof (cases "resolveEnd ns simNodes (l_source (ls ! q))")
      case (Inl e)
      then show ?thesis by simp
    next
      case (Inr x)
      show ?thesis
      proof (cases "resolveEnd ns simNodes (l_target (ls ! q))")
        case (Inl e)
        with Inr keep show ?thesis by simp
      next
        case Inr2: (Inr y)
        let ?ls1 = "ls[q := (ls ! q)\<lparr>l_source := x, l_target := y\<rparr>]"
        have "snd (resolveLinks ns simNodes ks ?ls1) ! k = ?ls1 ! k"
          by (rule Cons.IH) (simp_all add: len keep Cons.prems)
        with Inr Inr2 keep show ?thesis by simp
      qed
    qed
  qed
qed

text \<open>When the library does not throw, every link it was given has node objects at both
  ends.\<close>

lemma resolveLinks_objects:
  assumes "fst (resolveLinks ns simNodes ks ls) = None" and "k \<in> set ks" and "k < length ls"
  shows "\<exists>a b. l_source (snd (resolveLinks ns simNodes ks ls) ! k) = ENode a
      \<and> l_target (snd (resolveLinks ns simNodes ks ls) ! k) = ENode b"
  using assms
proof (induction ks arbitrary: ls)
  case Nil
  then show ?case by simp
next
  case (Cons q ks)
  from Cons.prems(1) resolveEnd_cases [of ns simNodes "l_source (ls ! q)"]
  obtain x where x: "resolveEnd ns simNodes (l_source (ls ! q)) = Inr (ENode x)"
    by (auto split: sum.splits)
  from Cons.prems(1) x resolveEnd_cases [of ns simNodes "l_target (ls ! q)"]
  obtain y where y: "resolveEnd ns simNodes (l_target (ls ! q)) = Inr (ENode y)"
    by (auto split: sum.splits)
  let ?ls1 = "ls[q := (ls ! q)\<lparr>l_source := ENode x, l_target := ENode y\<rparr>]"
  have step: "resolveLinks ns simNodes (q # ks) ls = resolveLinks ns simNodes ks ?ls1"
    using x y by simp
  from Cons.prems(1) have ok1: "fst (resolveLinks ns simNodes ks ?ls1) = None"
    by (simp only: step)
  have len1: "k < length ?ls1" using Cons.prems(3) by simp
  show ?case
  proof (cases "k = q")
    case True
    with Cons.prems(3) have s1: "l_source (?ls1 ! k) = ENode x" and t1: "l_target (?ls1 ! k) = ENode y"
      by simp_all
    from resolveLinks_keeps_objects [OF len1 s1 t1, of ns simNodes ks] s1 t1
    show ?thesis
      by (simp only: step) simp
  next
    case False
    with Cons.prems(2) have "k \<in> set ks" by simp
    from Cons.IH [OF ok1 this len1] show ?thesis
      by (simp only: step)
  qed
qed

subsection \<open>The force layout\<close>

lemma createForceLayout_parts:
  "nodes (snd (createForceLayout place s)) =
     placeNodes place 0 (filteredNodes (nodes s) (currentFilter s))
       (clearPins (filteredNodes (nodes s) (currentFilter s)) (nodes s))"
  "fst (createForceLayout place s) =
     fst (resolveLinks (nodes (snd (createForceLayout place s)))
       (filteredNodes (nodes s) (currentFilter s))
       (filteredLinks (nodes s) (links s) (currentFilter s)) (links s))"
  "links (snd (createForceLayout place s)) =
     snd (resolveLinks (nodes (snd (createForceLayout place s)))
       (filteredNodes (nodes s) (currentFilter s))
       (filteredLinks (nodes s) (links s) (currentFilter s)) (links s))"
  "currentFilter (snd (createForceLayout place s)) = currentFilter s"
  "currentLayout (snd (createForceLayout place s)) = currentLayout s"
  "clientWidth (snd (createForceLayout place s)) = clientWidth s"
  "clientHeight (snd (createForceLayout place s)) = clientHeight s"
  by (simp_all add: createForceLayout_def Let_def split: option.splits)

lemma createForceLayout_drawn:
  "fst (createForceLayout place s) = None \<Longrightarrow>
     scene (snd (createForceLayout place s)) =
       [map Line (filteredLinks (nodes s) (links s) (currentFilter s)),
        map Circle (filteredNodes (nodes s) (currentFilter s)),
        map Label (filteredNodes (nodes s) (currentFilter s))]
   \<and> simulation (snd (createForceLayout place s)) =
       Some \<lparr>sim_nodes = filteredNodes (nodes s) (currentFilter s),
             sim_links = filteredLinks (nodes s) (links s) (currentFilter s),
             alphaTarget = 0, running = True\<rparr>"
  by (simp add: createForceLayout_def Let_def split: option.splits)

lemma createForceLayout_length:
  "length (nodes (snd (createForceLayout place s))) = length (nodes s)"
  by (simp add: createForceLayout_parts placeNodes_length clearPins_length)

lemma createForceLayout_ids:
  "n_id (nodes (snd (createForceLayout place s)) ! r) = n_id (nodes s ! r)"
proof -
  have "n_id (placeNodes place 0 F (clearPins F ns) ! r) = n_id (ns ! r)" for F ns
  proof -
    have "n_id (placeNodes place 0 F (clearPins F ns) ! r) = n_id (clearPins F ns ! r)"
      by (rule placeNodes_field) simp
    also have "\<dots> = n_id (ns ! r)"
      by (rule clearPins_field) simp
    finally show ?thesis .
  qed
  then show ?thesis by (simp add: createForceLayout_parts)
qed

lemma filteredLinks_bound: "k \<in> set (filteredLinks ns ls flt) \<Longrightarrow> k < length ls"
  by (auto simp: filteredLinks_def allLinkRefs_def Let_def split: if_splits)

lemma hasId_iff: "hasId S e = (\<exists>i. e = EId i \<and> i \<in> S)"
  by (cases e) simp_all

text \<open>The library finds every endpoint when the links are known; under a category filter
  it finds every endpoint in any case, since the filter lets only ids of filtered nodes
  through.\<close>

lemma createForceLayout_ok:
  assumes "linksKnown s \<or> currentFilter s \<noteq> ''all''"
  shows "fst (createForceLayout place s) = None"
proof -
  let ?F = "filteredNodes (nodes s) (currentFilter s)"
  let ?L = "filteredLinks (nodes s) (links s) (currentFilter s)"
  let ?ns = "nodes (snd (createForceLayout place s))"
  have ids: "(\<lambda>r. n_id (?ns ! r)) ` set ?F = (\<lambda>r. n_id (nodes s ! r)) ` set ?F"
    by (simp add: createForceLayout_ids)
  have "\<forall>k \<in> set ?L. k < length (links s)
      \<and> (\<forall>i. l_source (links s ! k) = EId i \<longrightarrow> i \<in> (\<lambda>r. n_id (?ns ! r)) ` set ?F)
      \<and> (\<forall>i. l_target (links s ! k) = EId i \<longrightarrow> i \<in> (\<lambda>r. n_id (?ns ! r)) ` set ?F)"
  proof (cases "currentFilter s = ''all''")
    case False
    then show ?thesis
      unfolding ids
      by (auto simp: filteredLinks_def allLinkRefs_def Let_def hasId_iff)
  next
    case True
    with assms have known: "linksKnown s" by simp
    from True have F: "?F = [0..<length (nodes s)]"
      by (simp add: filteredNodes_def allRefs_def)
    have "map (\<lambda>r. n_id (nodes s ! r)) [0..<length (nodes s)] = map n_id (nodes s)"
      by (rule nth_equalityI) simp_all
    from arg_cong [OF this, of set]
    have all: "(\<lambda>r. n_id (nodes s ! r)) ` set ?F = set (map n_id (nodes s))"
      unfolding F by (simp only: set_map set_upt)
    show ?thesis
    proof
      fix k
      assume "k \<in> set ?L"
      then have klt: "k < length (links s)" by (rule filteredLinks_bound)
      then have "links s ! k \<in> set (links s)" by (rule nth_mem)
      with known have kn: "knownEnd (nodes s) (l_source (links s ! k))"
        "knownEnd (nodes s) (l_target (links s ! k))"
        by (simp_all add: linksKnown_def list_all_iff)
      from kn(1) have "\<forall>i. l_source (links s ! k) = EId i \<longrightarrow> i \<in> set (map n_id (nodes s))"
        by auto
      moreover from kn(2) have "\<forall>i. l_target (links s ! k) = EId i \<longrightarrow> i \<in> set (map n_id (nodes s))"
        by auto
      ultimately show "k < length (links s)
          \<and> (\<forall>i. l_source (links s ! k) = EId i \<longrightarrow> i \<in> (\<lambda>r. n_id (?ns ! r)) ` set ?F)
          \<and> (\<forall>i. l_target (links s ! k) = EId i \<longrightarrow> i \<in> (\<lambda>r. n_id (?ns ! r)) ` set ?F)"
        unfolding ids all using klt by blast
    qed
  qed
  from resolveLinks_ok [OF this] show ?thesis
    by (simp add: createForceLayout_parts(2))
qed

text \<open>Where the force layout leaves each node.\<close>

lemma createForceLayout_member:
  assumes "j < length (filteredNodes (nodes s) (currentFilter s))"
  shows "nodes (snd (createForceLayout place s)) ! (filteredNodes (nodes s) (currentFilter s) ! j) =
     (if n_x (nodes s ! (filteredNodes (nodes s) (currentFilter s) ! j)) = None
        \<or> n_y (nodes s ! (filteredNodes (nodes s) (currentFilter s) ! j)) = None
      then (nodes s ! (filteredNodes (nodes s) (currentFilter s) ! j))
             \<lparr>n_x := Some (fst (place j)), n_y := Some (snd (place j)),
              n_fx := None, n_fy := None\<rparr>
      else (nodes s ! (filteredNodes (nodes s) (currentFilter s) ! j))
             \<lparr>n_fx := None, n_fy := None\<rparr>)"
proof -
  let ?F = "filteredNodes (nodes s) (currentFilter s)"
  let ?c = "clearPins ?F (nodes s)"
  have d: "distinct ?F" by (rule filteredNodes_distinct)
  have b: "\<forall>r \<in> set ?F. r < length ?c"
    by (simp add: filteredNodes_bound clearPins_length)
  from assms have mem: "?F ! j \<in> set ?F" by (rule nth_mem)
  then have lt: "?F ! j < length (nodes s)" by (rule filteredNodes_bound)
  have c: "?c ! (?F ! j) = (nodes s ! (?F ! j))\<lparr>n_fx := None, n_fy := None\<rparr>"
    using lt mem by (simp add: clearPins_nth)
  from placeNodes_member [OF d b assms, of place 0] show ?thesis
    by (simp add: createForceLayout_parts(1) c)
qed

lemma createForceLayout_other:
  assumes "r < length (nodes s)" and "r \<notin> set (filteredNodes (nodes s) (currentFilter s))"
  shows "nodes (snd (createForceLayout place s)) ! r = nodes s ! r"
  using assms by (simp add: createForceLayout_parts(1) placeNodes_other clearPins_nth)

lemma createForceLayout_pins:
  assumes "r \<in> set (filteredNodes (nodes s) (currentFilter s))"
  shows "n_fx (nodes (snd (createForceLayout place s)) ! r) = None
    \<and> n_fy (nodes (snd (createForceLayout place s)) ! r) = None"
proof -
  from assms obtain j where j: "j < length (filteredNodes (nodes s) (currentFilter s))"
    and r: "filteredNodes (nodes s) (currentFilter s) ! j = r"
    by (auto simp: in_set_conv_nth)
  from createForceLayout_member [OF j, of place] r show ?thesis
    by (simp split: if_splits)
qed

section \<open>The example, evaluated\<close>

lemma example_buildLinks:
  "buildLinks exampleRecords =
     [\<lparr>source = ''1'', target = ''2''\<rparr>, \<lparr>source = ''1'', target = ''3''\<rparr>]"
  by (simp add: buildLinks_def recordLinks_def exampleRecords_def exampleRecord_def)

lemma example_built:
  "map buildNode exampleRecords =
     [buildNode (exampleRecord ''1'' ''A'' [''2'', ''3'', ''9'']),
      buildNode (exampleRecord ''2'' ''B'' []),
      buildNode (exampleRecord ''3'' ''A'' [])]"
  by (simp add: exampleRecords_def)

lemma example_record_fields:
  "n_id (buildNode (exampleRecord i c rel)) = i"
  "n_category (buildNode (exampleRecord i c rel)) = c"
  "n_x (buildNode (exampleRecord i c rel)) = None"
  "n_y (buildNode (exampleRecord i c rel)) = None"
  "n_fx (buildNode (exampleRecord i c rel)) = None"
  "n_fy (buildNode (exampleRecord i c rel)) = None"
  by (simp_all add: buildNode_def exampleRecord_def)

lemma example_placed:
  "placeNodes (\<lambda>i. (0, 0)) 0 [0, 1, 2] (clearPins [0, 1, 2] (map buildNode exampleRecords)) =
     [(buildNode (exampleRecord ''1'' ''A'' [''2'', ''3'', ''9'']))\<lparr>n_x := Some 0, n_y := Some 0\<rparr>,
      (buildNode (exampleRecord ''2'' ''B'' []))\<lparr>n_x := Some 0, n_y := Some 0\<rparr>,
      (buildNode (exampleRecord ''3'' ''A'' []))\<lparr>n_x := Some 0, n_y := Some 0\<rparr>]"
proof -
  have "clearPins [0, 1, 2] (map buildNode exampleRecords) = map buildNode exampleRecords"
    by (simp add: example_built setPin_def buildNode_def)
  then show ?thesis
    by (simp add: example_built example_record_fields)
qed

lemma example_resolved:
  "resolveLinks
     [(buildNode (exampleRecord ''1'' ''A'' [''2'', ''3'', ''9'']))\<lparr>n_x := Some 0, n_y := Some 0\<rparr>,
      (buildNode (exampleRecord ''2'' ''B'' []))\<lparr>n_x := Some 0, n_y := Some 0\<rparr>,
      (buildNode (exampleRecord ''3'' ''A'' []))\<lparr>n_x := Some 0, n_y := Some 0\<rparr>]
     [0, 1, 2] [0, 1] (map linkObject (buildLinks exampleRecords)) =
   (None, [\<lparr>l_source = ENode 0, l_target = ENode 1\<rparr>, \<lparr>l_source = ENode 0, l_target = ENode 2\<rparr>])"
  by (simp add: example_buildLinks linkObject_def findNode_def example_record_fields)

lemma example_start:
  "fst (initializeGraph (\<lambda>i. (0, 0)) exampleRecords w h) = None"
  "nodes (exampleStart w h) =
     [(buildNode (exampleRecord ''1'' ''A'' [''2'', ''3'', ''9'']))\<lparr>n_x := Some 0, n_y := Some 0\<rparr>,
      (buildNode (exampleRecord ''2'' ''B'' []))\<lparr>n_x := Some 0, n_y := Some 0\<rparr>,
      (buildNode (exampleRecord ''3'' ''A'' []))\<lparr>n_x := Some 0, n_y := Some 0\<rparr>]"
  "links (exampleStart w h) =
     [\<lparr>l_source = ENode 0, l_target = ENode 1\<rparr>, \<lparr>l_source = ENode 0, l_target = ENode 2\<rparr>]"
  "currentFilter (exampleStart w h) = ''all''"
  "currentLayout (exampleStart w h) = ''force''"
  "clientWidth (exampleStart w h) = w"
  "clientHeight (exampleStart w h) = h"
  "scene (exampleStart w h) = [map Line [0, 1], map Circle [0, 1, 2], map Label [0, 1, 2]]"
proof -
  let ?s = "\<lparr>nodes = map buildNode exampleRecords,
        links = map linkObject (buildLinks exampleRecords),
        currentFilter = ''all'', currentLayout = ''force'', simulation = None, scene = [],
        clientWidth = w, clientHeight = h\<rparr>"
  have F: "filteredNodes (nodes ?s) (currentFilter ?s) = [0, 1, 2]"
    by (simp add: filteredNodes_def allRefs_def example_built upt_rec)
  have L: "filteredLinks (nodes ?s) (links ?s) (currentFilter ?s) = [0, 1]"
    by (simp add: filteredLinks_def allLinkRefs_def example_buildLinks upt_rec)
  have n: "nodes (snd (createForceLayout (\<lambda>i. (0, 0)) ?s)) =
      [(buildNode (exampleRecord ''1'' ''A'' [''2'', ''3'', ''9'']))\<lparr>n_x := Some 0, n_y := Some 0\<rparr>,
       (buildNode (exampleRecord ''2'' ''B'' []))\<lparr>n_x := Some 0, n_y := Some 0\<rparr>,
       (buildNode (exampleRecord ''3'' ''A'' []))\<lparr>n_x := Some 0, n_y := Some 0\<rparr>]"
    unfolding createForceLayout_parts(1) F using example_placed by simp
  have r: "resolveLinks (nodes (snd (createForceLayout (\<lambda>i. (0, 0)) ?s)))
      (filteredNodes (nodes ?s) (currentFilter ?s))
      (filteredLinks (nodes ?s) (links ?s) (currentFilter ?s)) (links ?s) =
      (None, [\<lparr>l_source = ENode 0, l_target = ENode 1\<rparr>, \<lparr>l_source = ENode 0, l_target = ENode 2\<rparr>])"
    unfolding n F L using example_resolved by simp
  have ok: "fst (createForceLayout (\<lambda>i. (0, 0)) ?s) = None"
    unfolding createForceLayout_parts(2) r by simp
  show "fst (initializeGraph (\<lambda>i. (0, 0)) exampleRecords w h) = None"
    using ok by (simp add: initializeGraph_def)
  show "nodes (exampleStart w h) =
     [(buildNode (exampleRecord ''1'' ''A'' [''2'', ''3'', ''9'']))\<lparr>n_x := Some 0, n_y := Some 0\<rparr>,
      (buildNode (exampleRecord ''2'' ''B'' []))\<lparr>n_x := Some 0, n_y := Some 0\<rparr>,
      (buildNode (exampleRecord ''3'' ''A'' []))\<lparr>n_x := Some 0, n_y := Some 0\<rparr>]"
    using n by (simp add: exampleStart_def initializeGraph_def)
  show "links (exampleStart w h) =
     [\<lparr>l_source = ENode 0, l_target = ENode 1\<rparr>, \<lparr>l_source = ENode 0, l_target = ENode 2\<rparr>]"
    unfolding exampleStart_def initializeGraph_def createForceLayout_parts(3) r by simp
  show "currentFilter (exampleStart w h) = ''all''"
    by (simp add: exampleStart_def initializeGraph_def createForceLayout_parts)
  show "currentLayout (exampleStart w h) = ''force''"
    by (simp add: exampleStart_def initializeGraph_def createForceLayout_parts)
  show "clientWidth (exampleStart w h) = w"
    by (simp add: exampleStart_def initializeGraph_def createForceLayout_parts)
  show "clientHeight (exampleStart w h) = h"
    by (simp add: exampleStart_def initializeGraph_def createForceLayout_parts)
  from createForceLayout_drawn [OF ok, THEN conjunct1]
  show "scene (exampleStart w h) = [map Line [0, 1], map Circle [0, 1, 2], map Label [0, 1, 2]]"
    unfolding F L by (simp add: exampleStart_def initializeGraph_def)
qed

lemma example_nodes:
  "length (nodes (exampleStart w h)) = 3"
  "n_category (nodes (exampleStart w h) ! 0) = ''A''"
  "n_category (nodes (exampleStart w h) ! Suc 0) = ''B''"
  "n_category (nodes (exampleStart w h) ! 2) = ''A''"
  "n_category (nodes (exampleStart w h) ! Suc (Suc 0)) = ''A''"
  "n_id (nodes (exampleStart w h) ! 0) = ''1''"
  "n_id (nodes (exampleStart w h) ! Suc 0) = ''2''"
  "n_id (nodes (exampleStart w h) ! 2) = ''3''"
  "n_id (nodes (exampleStart w h) ! Suc (Suc 0)) = ''3''"
  "n_x (nodes (exampleStart w h) ! 0) = Some 0"
  "n_y (nodes (exampleStart w h) ! 0) = Some 0"
  "n_x (nodes (exampleStart w h) ! Suc 0) = Some 0"
  "n_y (nodes (exampleStart w h) ! Suc 0) = Some 0"
  by (simp_all add: example_start(2) example_record_fields numeral_2_eq_2)

lemma example_filteredNodes:
  "filteredNodes (nodes (exampleStart w h)) ''all'' = [0, 1, 2]"
  "filteredNodes (nodes (exampleStart w h)) ''A'' = [0, 2]"
  "filteredNodes (nodes (exampleStart w h)) ''C'' = []"
  by (simp_all add: filteredNodes_def allRefs_def example_nodes upt_rec)

lemma example_layout_data:
  "categoriesOf (nodes (exampleStart w h)) [0, Suc 0, 2] = [''A'', ''B'']"
  "categoryNodes (nodes (exampleStart w h)) [0, Suc 0, 2] ''A'' = [0, 2]"
  "categoryNodes (nodes (exampleStart w h)) [0, Suc 0, 2] ''B'' = [Suc 0]"
  by (simp_all add: categoriesOf_def categoryNodes_def newSet_def setAdd_def example_nodes)

section \<open>Drag and the detail panel\<close>

text \<open>
  C7. Drag start, a drag move to the point (px, py) and drag end, on a node of the
  graph, leave the node pinned at exactly fx = px and fy = py; the drag-end handler
  changes no node at all, so the pin stays after the release.
\<close>

theorem drag_pin_persists:
  "d < length (nodes s) \<Longrightarrow>
     n_fx (nodes (dragended e3 d (dragged e2 d (dragstarted e1 d s))) ! d) = Some (ev_x e2)
   \<and> n_fy (nodes (dragended e3 d (dragged e2 d (dragstarted e1 d s))) ! d) = Some (ev_y e2)
   \<and> nodes (dragended e3 d s') = nodes s'"
  by (simp add: dragended_def dragged_def dragstarted_def setPin_def Let_def
      split: option.splits)

theorem drag_pin_persists_witness:
  "(1::nat) < length (nodes (exampleStart 800 600))
   \<and> n_fx (nodes (dragended \<lparr>ev_active = 0, ev_x = 40, ev_y = 50\<rparr> 1
        (dragged \<lparr>ev_active = 1, ev_x = 40, ev_y = 50\<rparr> 1
          (dragstarted \<lparr>ev_active = 0, ev_x = 10, ev_y = 20\<rparr> 1
            (exampleStart 800 600)))) ! 1) = Some 40
   \<and> n_fy (nodes (dragended \<lparr>ev_active = 0, ev_x = 40, ev_y = 50\<rparr> 1
        (dragged \<lparr>ev_active = 1, ev_x = 40, ev_y = 50\<rparr> 1
          (dragstarted \<lparr>ev_active = 0, ev_x = 10, ev_y = 20\<rparr> 1
            (exampleStart 800 600)))) ! 1) = Some 50"
proof -
  have len: "(1::nat) < length (nodes (exampleStart 800 600))"
    by (simp add: example_nodes)
  note pin = drag_pin_persists [OF len, where ?e3.0 = "\<lparr>ev_active = 0, ev_x = 40, ev_y = 50\<rparr>"
      and ?e2.0 = "\<lparr>ev_active = 1, ev_x = 40, ev_y = 50\<rparr>"
      and ?e1.0 = "\<lparr>ev_active = 0, ev_x = 10, ev_y = 20\<rparr>"]
  from len pin [THEN conjunct1] pin [THEN conjunct2, THEN conjunct1]
  show ?thesis by simp
qed

text \<open>
  C8, as the script has it. For a node whose mission is absent or a string, the link
  action of the detail view opens the first entry of links.publications when that entry
  exists and is not the empty string; otherwise the first entry of links.datasets when
  that entry exists and is not the empty string; otherwise the action is disabled: its
  handler is cleared and its disabled flag is set. The button is always there (never
  omitted), and nothing is raised. For a node whose mission is a number or a boolean the
  mission line raises a TypeError, and the link action stays as it was.
\<close>

theorem showNodeDetails_link:
  "fst (showNodeDetails toUpperCase nd p) =
     (case n_mission nd of
        JNum x \<Rightarrow> Some TypeError
      | JBool b \<Rightarrow> Some TypeError
      | _ \<Rightarrow> None)
   \<and> viewLinkBtn (snd (showNodeDetails toUpperCase nd p)) =
     (case n_mission nd of
        JNum x \<Rightarrow> viewLinkBtn p
      | JBool b \<Rightarrow> viewLinkBtn p
      | _ \<Rightarrow>
          (case firstEntry (publications (n_links nd)) of
             Some (c # cs) \<Rightarrow>
               \<lparr>textContent = ''View Publication'', onclick = Some (c # cs), disabled = False\<rparr>
           | _ \<Rightarrow>
               (case firstEntry (datasets (n_links nd)) of
                  Some (c # cs) \<Rightarrow>
                    \<lparr>textContent = ''View Publication'', onclick = Some (c # cs),
                      disabled = False\<rparr>
                | _ \<Rightarrow>
                    \<lparr>textContent = ''View Publication'', onclick = None, disabled = True\<rparr>)))"
  by (cases "n_mission nd")
    (simp_all add: showNodeDetails_def linkToOpen_def truthyStr_def Let_def
      split: option.splits list.splits)

theorem showNodeDetails_link_witness:
  "n_mission (exampleNode (Some [''http://p'']) None) = JStr ''iss''
   \<and> fst (showNodeDetails id (exampleNode (Some [''http://p'']) None) emptyPanel) = None
   \<and> viewLinkBtn (snd (showNodeDetails id (exampleNode (Some [''http://p'']) None) emptyPanel)) =
        \<lparr>textContent = ''View Publication'', onclick = Some ''http://p'', disabled = False\<rparr>
   \<and> fst (showNodeDetails id ((exampleNode None None)\<lparr>n_mission := JNum 7\<rparr>) emptyPanel) =
        Some TypeError
   \<and> viewLinkBtn (snd (showNodeDetails id ((exampleNode None None)\<lparr>n_mission := JNum 7\<rparr>) emptyPanel)) =
        viewLinkBtn emptyPanel"
proof -
  have m: "n_mission (exampleNode (Some [''http://p'']) None) = JStr ''iss''"
    by (simp add: exampleNode_def buildNode_def exampleRecord_def)
  from m
    showNodeDetails_link [of id "exampleNode (Some [''http://p'']) None" emptyPanel]
    showNodeDetails_link [of id "(exampleNode None None)\<lparr>n_mission := JNum 7\<rparr>" emptyPanel]
  show ?thesis
    by (simp add: exampleNode_def firstEntry_def)
qed

text \<open>
  C8 as the specification words it fails where the first publication entry exists and is
  the empty string: for a node with a string mission, nothing is raised and the action
  opens the first data set instead.
\<close>

theorem showNodeDetails_empty_publication:
  "n_mission (exampleNode (Some ['''']) (Some [''http://d''])) = JStr ''iss''
   \<and> firstEntry (publications (n_links (exampleNode (Some ['''']) (Some [''http://d''])))) = Some ''''
   \<and> fst (showNodeDetails id (exampleNode (Some ['''']) (Some [''http://d''])) emptyPanel) = None
   \<and> onclick (viewLinkBtn (snd (showNodeDetails id
        (exampleNode (Some ['''']) (Some [''http://d''])) emptyPanel))) = Some ''http://d''
   \<and> onclick (viewLinkBtn (snd (showNodeDetails id
        (exampleNode (Some ['''']) (Some [''http://d''])) emptyPanel))) \<noteq> Some ''''"
  by (simp add: showNodeDetails_def linkToOpen_def truthyStr_def firstEntry_def exampleNode_def
      buildNode_def exampleRecord_def Let_def)

section \<open>The selection of nodes and edges\<close>

text \<open>The nodes a filter selects: all of them for "all", and otherwise exactly the nodes
  of the category, in their order.\<close>

lemma filteredNodes_select:
  "map ((!) ns) (filteredNodes ns ''all'') = ns"
  "flt \<noteq> ''all'' \<Longrightarrow>
     map ((!) ns) (filteredNodes ns flt) = filter (\<lambda>n. n_category n = flt) ns"
proof -
  show "map ((!) ns) (filteredNodes ns ''all'') = ns"
    by (simp add: filteredNodes_def allRefs_def map_nth)
  show "map ((!) ns) (filteredNodes ns flt) = filter (\<lambda>n. n_category n = flt) ns"
    if "flt \<noteq> ''all''"
    using that map_nth_filter [where P = "\<lambda>n. n_category n = flt" and ns = ns]
    by (simp add: filteredNodes_def allRefs_def)
qed

text \<open>The edges a filter selects while the endpoints of the links are still the ids the
  data adapter stored: all of them for "all", and otherwise exactly the links with both
  ids among the ids of the filtered nodes.\<close>

lemma filteredLinks_ids:
  "filteredLinks ns ls ''all'' = allLinkRefs ls"
  "flt \<noteq> ''all'' \<Longrightarrow>
     filteredLinks ns (map linkObject es) flt =
       filter (\<lambda>k. source (es ! k) \<in> n_id ` set (map ((!) ns) (filteredNodes ns flt))
                \<and> target (es ! k) \<in> n_id ` set (map ((!) ns) (filteredNodes ns flt)))
         [0..<length es]"
proof -
  show "filteredLinks ns ls ''all'' = allLinkRefs ls"
    by (simp add: filteredLinks_def)
  show "filteredLinks ns (map linkObject es) flt =
       filter (\<lambda>k. source (es ! k) \<in> n_id ` set (map ((!) ns) (filteredNodes ns flt))
                \<and> target (es ! k) \<in> n_id ` set (map ((!) ns) (filteredNodes ns flt)))
         [0..<length es]"
    if "flt \<noteq> ''all''"
    using that
    by (auto simp: filteredLinks_def allLinkRefs_def Let_def linkObject_def image_image
        intro!: filter_cong)
qed

text \<open>Once both endpoints of every link are node objects, a category filter selects no
  link.\<close>

lemma filteredLinks_objects:
  assumes "flt \<noteq> ''all''"
    and "\<forall>k < length ls. \<exists>a b. l_source (ls ! k) = ENode a \<and> l_target (ls ! k) = ENode b"
  shows "filteredLinks ns ls flt = []"
proof -
  have "\<not> hasId S (l_source (ls ! k))" if "k < length ls" for k S
    using assms(2) that by auto
  then show ?thesis
    using assms(1) by (simp add: filteredLinks_def allLinkRefs_def Let_def filter_empty_conv)
qed

lemma initial_links_known:
  "linksKnown \<lparr>nodes = map buildNode experiments,
      links = map linkObject (buildLinks experiments),
      currentFilter = ''all'', currentLayout = ''force'', simulation = None, scene = [],
      clientWidth = w, clientHeight = h\<rparr>"
proof -
  have "set (map n_id (map buildNode experiments)) = e_id ` set experiments"
    using buildNode_ids [of experiments] by (simp add: image_image)
  then show ?thesis
    by (simp add: linksKnown_def list_all_iff linkObject_def buildLinks_source buildLinks_target)
qed

text \<open>
  C1, where the script departs from it. The first layout, made when the records are
  loaded, is the force layout on all nodes and all links; it never fails, and the link
  force puts the node objects in the place of the endpoint ids of every link. The
  category filter looks the endpoints up in the set of the ids of the filtered nodes,
  where a node object is never found. So from the load on, a category filter selects no
  edge at all, also not an edge whose two endpoints are nodes of the category; the nodes
  selected are those of the category, as the claim says.
\<close>

theorem category_filter_after_load:
  "flt \<noteq> ''all'' \<Longrightarrow>
     fst (initializeGraph place experiments w h) = None
   \<and> (\<forall>k < length (links (snd (initializeGraph place experiments w h))).
         \<exists>a b. links (snd (initializeGraph place experiments w h)) ! k =
           \<lparr>l_source = ENode a, l_target = ENode b\<rparr>)
   \<and> filteredLinks (nodes (snd (initializeGraph place experiments w h)))
        (links (snd (initializeGraph place experiments w h))) flt = []
   \<and> map ((!) (nodes (snd (initializeGraph place experiments w h))))
        (filteredNodes (nodes (snd (initializeGraph place experiments w h))) flt) =
      filter (\<lambda>n. n_category n = flt) (nodes (snd (initializeGraph place experiments w h)))"
proof -
  assume flt: "flt \<noteq> ''all''"
  let ?s = "\<lparr>nodes = map buildNode experiments,
      links = map linkObject (buildLinks experiments),
      currentFilter = ''all'', currentLayout = ''force'', simulation = None, scene = [],
      clientWidth = w, clientHeight = h\<rparr>"
  let ?r = "createForceLayout place ?s"
  have init: "initializeGraph place experiments w h = ?r"
    by (simp add: initializeGraph_def)
  have ok: "fst ?r = None"
    using initial_links_known [of experiments w h] by (simp add: createForceLayout_ok)
  have L: "filteredLinks (nodes ?s) (links ?s) (currentFilter ?s) = [0..<length (links ?s)]"
    by (simp add: filteredLinks_def allLinkRefs_def)
  have len: "length (links (snd ?r)) = length (links ?s)"
    by (simp only: createForceLayout_parts(3) resolveLinks_length)
  have obj: "\<exists>a b. l_source (links (snd ?r) ! k) = ENode a \<and> l_target (links (snd ?r) ! k) = ENode b"
    if "k < length (links (snd ?r))" for k
  proof -
    from that len have k: "k < length (links ?s)" by simp
    then have mem: "k \<in> set (filteredLinks (nodes ?s) (links ?s) (currentFilter ?s))"
      by (simp only: L) simp
    from ok have ok': "fst (resolveLinks (nodes (snd ?r)) (filteredNodes (nodes ?s) (currentFilter ?s))
        (filteredLinks (nodes ?s) (links ?s) (currentFilter ?s)) (links ?s)) = None"
      by (simp only: createForceLayout_parts(2))
    from resolveLinks_objects [OF ok' mem k] show ?thesis
      by (simp only: createForceLayout_parts(3))
  qed
  have rec: "\<exists>a b. links (snd ?r) ! k = \<lparr>l_source = ENode a, l_target = ENode b\<rparr>"
    if "k < length (links (snd ?r))" for k
  proof -
    from obj [OF that] obtain a b where "l_source (links (snd ?r) ! k) = ENode a"
      and "l_target (links (snd ?r) ! k) = ENode b" by blast
    then have "links (snd ?r) ! k = \<lparr>l_source = ENode a, l_target = ENode b\<rparr>"
      by (cases "links (snd ?r) ! k") simp
    then show ?thesis by blast
  qed
  have all_obj: "\<forall>k < length (links (snd ?r)).
      \<exists>a b. l_source (links (snd ?r) ! k) = ENode a \<and> l_target (links (snd ?r) ! k) = ENode b"
    using obj by (intro allI impI)
  have none: "filteredLinks (nodes (snd ?r)) (links (snd ?r)) flt = []"
    using flt all_obj by (rule filteredLinks_objects)
  from ok rec none filteredNodes_select(2) [OF flt, of "nodes (snd ?r)"] show ?thesis
    unfolding init by blast
qed

theorem category_filter_after_load_witness:
  "''A'' \<noteq> ''all''
   \<and> filteredNodes (nodes (exampleStart 800 600)) ''A'' = [0, 2]
   \<and> links (exampleStart 800 600) ! 1 = \<lparr>l_source = ENode 0, l_target = ENode 2\<rparr>
   \<and> filteredLinks (nodes (exampleStart 800 600)) (links (exampleStart 800 600)) ''A'' = []
   \<and> filteredLinks (map buildNode exampleRecords) (map linkObject (buildLinks exampleRecords)) ''A''
        = [1]"
proof -
  have ne: "''A'' \<noteq> ''all''" by simp
  have fresh: "filteredLinks (map buildNode exampleRecords)
      (map linkObject (buildLinks exampleRecords)) ''A'' = [1]"
    by (simp add: filteredLinks_def allLinkRefs_def filteredNodes_def allRefs_def Let_def
        example_buildLinks linkObject_def example_built example_record_fields upt_rec)
  have l: "links (exampleStart 800 600) ! 1 = \<lparr>l_source = ENode 0, l_target = ENode 2\<rparr>"
    by (simp add: example_start)
  from category_filter_after_load [OF ne, of "\<lambda>i. (0, 0)" exampleRecords 800 600]
  have "filteredLinks (nodes (exampleStart 800 600)) (links (exampleStart 800 600)) ''A'' = []"
    by (simp only: exampleStart_def)
  with ne fresh l example_filteredNodes(2) [of 800 600] show ?thesis by blast
qed

section \<open>Pins and the force layout\<close>

lemma filteredNodes_cong:
  assumes "length ns' = length ns" and "\<And>i. n_category (ns' ! i) = n_category (ns ! i)"
  shows "filteredNodes ns' flt = filteredNodes ns flt"
  using assms by (simp add: filteredNodes_def allRefs_def)

lemma layoutChange_force:
  "layoutChange ''force'' place rnd s =
     createForceLayout place (stopSimulation (s\<lparr>currentLayout := ''force''\<rparr>))"
  by (simp add: layoutChange_def updateLayout_def Let_def stopSimulation_fields)

text \<open>
  C3, as the script has it. Every start of the force layout clears fx and fy of every
  node of the filtered node set, and of no other node, before the simulation is made on
  that set; besides, the library gives a position to a filtered node that has none, and
  nothing else of a node changes. This holds whether or not the link force fails
  afterwards; when it does not fail, the simulation is made on the filtered nodes.
  Switching the layout mode to force is such a start. There is no exception for a node
  that is being dragged: its pin is cleared with the others, and the next drag move pins
  it again.
\<close>

theorem force_restart_clears_pins:
  "(\<forall>r \<in> set (filteredNodes (nodes s) (currentFilter s)).
      n_fx (nodes (snd (createForceLayout place s)) ! r) = None
    \<and> n_fy (nodes (snd (createForceLayout place s)) ! r) = None)
   \<and> (\<forall>j < length (filteredNodes (nodes s) (currentFilter s)).
        nodes (snd (createForceLayout place s)) ! (filteredNodes (nodes s) (currentFilter s) ! j) =
          (if n_x (nodes s ! (filteredNodes (nodes s) (currentFilter s) ! j)) = None
             \<or> n_y (nodes s ! (filteredNodes (nodes s) (currentFilter s) ! j)) = None
           then (nodes s ! (filteredNodes (nodes s) (currentFilter s) ! j))
                  \<lparr>n_x := Some (fst (place j)), n_y := Some (snd (place j)),
                   n_fx := None, n_fy := None\<rparr>
           else (nodes s ! (filteredNodes (nodes s) (currentFilter s) ! j))
                  \<lparr>n_fx := None, n_fy := None\<rparr>))
   \<and> (\<forall>r. r < length (nodes s) \<and> r \<notin> set (filteredNodes (nodes s) (currentFilter s)) \<longrightarrow>
        nodes (snd (createForceLayout place s)) ! r = nodes s ! r)
   \<and> length (nodes (snd (createForceLayout place s))) = length (nodes s)
   \<and> (fst (createForceLayout place s) = None \<longrightarrow>
        map_option sim_nodes (simulation (snd (createForceLayout place s))) =
          Some (filteredNodes (nodes s) (currentFilter s)))
   \<and> (linksKnown s \<or> currentFilter s \<noteq> ''all'' \<longrightarrow> fst (createForceLayout place s) = None)
   \<and> layoutChange ''force'' place rnd s =
        createForceLayout place (stopSimulation (s\<lparr>currentLayout := ''force''\<rparr>))
   \<and> (d < length (nodes s) \<longrightarrow>
        n_fx (nodes (dragged e d (snd (createForceLayout place s))) ! d) = Some (ev_x e)
      \<and> n_fy (nodes (dragged e d (snd (createForceLayout place s))) ! d) = Some (ev_y e))"
proof -
  have a: "\<forall>r \<in> set (filteredNodes (nodes s) (currentFilter s)).
      n_fx (nodes (snd (createForceLayout place s)) ! r) = None
    \<and> n_fy (nodes (snd (createForceLayout place s)) ! r) = None"
    by (intro ballI) (rule createForceLayout_pins)
  have b: "\<forall>j < length (filteredNodes (nodes s) (currentFilter s)).
        nodes (snd (createForceLayout place s)) ! (filteredNodes (nodes s) (currentFilter s) ! j) =
          (if n_x (nodes s ! (filteredNodes (nodes s) (currentFilter s) ! j)) = None
             \<or> n_y (nodes s ! (filteredNodes (nodes s) (currentFilter s) ! j)) = None
           then (nodes s ! (filteredNodes (nodes s) (currentFilter s) ! j))
                  \<lparr>n_x := Some (fst (place j)), n_y := Some (snd (place j)),
                   n_fx := None, n_fy := None\<rparr>
           else (nodes s ! (filteredNodes (nodes s) (currentFilter s) ! j))
                  \<lparr>n_fx := None, n_fy := None\<rparr>)"
    by (intro allI impI) (rule createForceLayout_member)
  have c: "\<forall>r. r < length (nodes s) \<and> r \<notin> set (filteredNodes (nodes s) (currentFilter s)) \<longrightarrow>
        nodes (snd (createForceLayout place s)) ! r = nodes s ! r"
    by (simp add: createForceLayout_other)
  have d: "fst (createForceLayout place s) = None \<longrightarrow>
        map_option sim_nodes (simulation (snd (createForceLayout place s))) =
          Some (filteredNodes (nodes s) (currentFilter s))"
    by (simp add: createForceLayout_drawn)
  have e: "linksKnown s \<or> currentFilter s \<noteq> ''all'' \<longrightarrow> fst (createForceLayout place s) = None"
    by (intro impI) (rule createForceLayout_ok)
  have f: "d < length (nodes s) \<longrightarrow>
        n_fx (nodes (dragged e d (snd (createForceLayout place s))) ! d) = Some (ev_x e)
      \<and> n_fy (nodes (dragged e d (snd (createForceLayout place s))) ! d) = Some (ev_y e)"
    by (simp add: dragged_def setPin_nth createForceLayout_length)
  from a b c d e f createForceLayout_length [of place s] layoutChange_force [of place rnd s]
  show ?thesis by blast
qed

lemma setPin_x: "n_x (setPin r a b ns ! i) = n_x (ns ! i)" "n_y (setPin r a b ns ! i) = n_y (ns ! i)"
proof -
  have "n_x (setPin r a b ns ! i) = n_x (ns ! i) \<and> n_y (setPin r a b ns ! i) = n_y (ns ! i)"
  proof (cases "r < length ns")
    case True
    then show ?thesis by (cases "i = r") (simp_all add: setPin_def)
  next
    case False
    then show ?thesis by (simp add: setPin_def list_update_beyond)
  qed
  then show "n_x (setPin r a b ns ! i) = n_x (ns ! i)" "n_y (setPin r a b ns ! i) = n_y (ns ! i)"
    by simp_all
qed

lemma setPin_cat: "n_category (setPin r a b ns ! i) = n_category (ns ! i)"
proof (cases "r < length ns")
  case True
  then show ?thesis by (cases "i = r") (simp_all add: setPin_def)
next
  case False
  then show ?thesis by (simp add: setPin_def list_update_beyond)
qed

lemma drag_nodes:
  "nodes (dragged e d s) = setPin d (Some (ev_x e)) (Some (ev_y e)) (nodes s)"
  "nodes (dragstarted e d s) = setPin d (n_x (nodes s ! d)) (n_y (nodes s ! d)) (nodes s)"
  "currentFilter (dragged e d s) = currentFilter s"
  "currentFilter (dragstarted e d s) = currentFilter s"
  "currentLayout (dragged e d s) = currentLayout s"
  "currentLayout (dragstarted e d s) = currentLayout s"
  by (simp_all add: dragged_def dragstarted_def Let_def split: option.splits)

theorem force_restart_clears_pins_witness:
  "n_fx (nodes ((dragged \<lparr>ev_active = 1, ev_x = 40, ev_y = 50\<rparr> 1
        (dragged \<lparr>ev_active = 1, ev_x = 40, ev_y = 50\<rparr> 0
          (exampleStart 800 600)))\<lparr>currentFilter := ''A''\<rparr>) ! 0) = Some 40
   \<and> fst (createForceLayout (\<lambda>i. (0, 0)) ((dragged \<lparr>ev_active = 1, ev_x = 40, ev_y = 50\<rparr> 1
        (dragged \<lparr>ev_active = 1, ev_x = 40, ev_y = 50\<rparr> 0
          (exampleStart 800 600)))\<lparr>currentFilter := ''A''\<rparr>)) = None
   \<and> n_fx (nodes (snd (createForceLayout (\<lambda>i. (0, 0))
        ((dragged \<lparr>ev_active = 1, ev_x = 40, ev_y = 50\<rparr> 1
          (dragged \<lparr>ev_active = 1, ev_x = 40, ev_y = 50\<rparr> 0
            (exampleStart 800 600)))\<lparr>currentFilter := ''A''\<rparr>))) ! 0) = None
   \<and> n_fx (nodes (snd (createForceLayout (\<lambda>i. (0, 0))
        ((dragged \<lparr>ev_active = 1, ev_x = 40, ev_y = 50\<rparr> 1
          (dragged \<lparr>ev_active = 1, ev_x = 40, ev_y = 50\<rparr> 0
            (exampleStart 800 600)))\<lparr>currentFilter := ''A''\<rparr>))) ! 1) = Some 40"
proof -
  let ?e = "\<lparr>ev_active = 1, ev_x = 40, ev_y = 50\<rparr>"
  let ?s = "(dragged ?e 1 (dragged ?e 0 (exampleStart 800 600)))\<lparr>currentFilter := ''A''\<rparr>"
  have len: "length (nodes ?s) = 3"
    by (simp add: drag_nodes setPin_length example_nodes)
  have f: "filteredNodes (nodes ?s) (currentFilter ?s) = [0, 2]"
  proof -
    have "filteredNodes (nodes ?s) ''A'' = filteredNodes (nodes (exampleStart 800 600)) ''A''"
      by (rule filteredNodes_cong) (simp_all add: drag_nodes setPin_length setPin_cat)
    then show ?thesis by (simp add: example_filteredNodes)
  qed
  have p: "n_fx (nodes ?s ! 0) = Some 40" "n_fx (nodes ?s ! 1) = Some 40"
    by (simp_all add: drag_nodes setPin_nth setPin_length example_nodes)
  have flt: "linksKnown ?s \<or> currentFilter ?s \<noteq> ''all''" by simp
  note t = force_restart_clears_pins [of ?s "\<lambda>i. (0, 0)"]
  have a: "n_fx (nodes (snd (createForceLayout (\<lambda>i. (0, 0)) ?s)) ! 0) = None"
    using t [THEN conjunct1] unfolding f by simp
  have b: "nodes (snd (createForceLayout (\<lambda>i. (0, 0)) ?s)) ! 1 = nodes ?s ! 1"
    using t [THEN conjunct2, THEN conjunct2, THEN conjunct1, rule_format, of 1] len
    unfolding f by simp
  have c: "fst (createForceLayout (\<lambda>i. (0, 0)) ?s) = None"
    using t [THEN conjunct2, THEN conjunct2, THEN conjunct2, THEN conjunct2, THEN conjunct2,
        THEN conjunct1] flt by blast
  show ?thesis using a b c p by simp
qed

text \<open>
  C3 as the specification words it fails on a drag in progress: after drag start and a
  drag move on node 0 (and no drag end), a change of the filter restarts the force layout
  and the pin of the dragged node is gone.
\<close>

theorem force_restart_clears_drag_pin:
  "n_fx (nodes (dragged \<lparr>ev_active = 1, ev_x = 40, ev_y = 50\<rparr> 0
      (dragstarted \<lparr>ev_active = 0, ev_x = 10, ev_y = 20\<rparr> 0
        (exampleStart 800 600))) ! 0) = Some 40
   \<and> n_fx (nodes (snd (filterChange ''A'' (\<lambda>i. (0, 0)) (\<lambda>j. 0)
        (dragged \<lparr>ev_active = 1, ev_x = 40, ev_y = 50\<rparr> 0
          (dragstarted \<lparr>ev_active = 0, ev_x = 10, ev_y = 20\<rparr> 0
            (exampleStart 800 600))))) ! 0) = None"
proof -
  let ?d = "dragged \<lparr>ev_active = 1, ev_x = 40, ev_y = 50\<rparr> 0
      (dragstarted \<lparr>ev_active = 0, ev_x = 10, ev_y = 20\<rparr> 0 (exampleStart 800 600))"
  let ?s = "stopSimulation (?d\<lparr>currentFilter := ''A''\<rparr>)"
  have pinned: "n_fx (nodes ?d ! 0) = Some 40"
    by (simp add: drag_nodes setPin_nth setPin_length example_nodes)
  have upd: "filterChange ''A'' (\<lambda>i. (0, 0)) (\<lambda>j. 0) ?d = createForceLayout (\<lambda>i. (0, 0)) ?s"
    by (simp add: filterChange_def updateLayout_def Let_def stopSimulation_fields drag_nodes
        example_start)
  have "filteredNodes (nodes ?s) (currentFilter ?s) =
      filteredNodes (nodes (exampleStart 800 600)) ''A''"
    unfolding stopSimulation_fields
    by (simp, rule filteredNodes_cong) (simp_all add: drag_nodes setPin_length setPin_cat)
  then have "0 \<in> set (filteredNodes (nodes ?s) (currentFilter ?s))"
    by (simp add: example_filteredNodes)
  from createForceLayout_pins [OF this, of "\<lambda>i. (0, 0)"] pinned show ?thesis
    unfolding upd by simp
qed

section \<open>The scene after a switch of the layout\<close>




lemma linksKnown_fields:
  "linksKnown (stopSimulation s) = linksKnown s"
  "linksKnown (s\<lparr>currentLayout := v\<rparr>) = linksKnown s"
  "linksKnown (s\<lparr>currentFilter := v\<rparr>) = linksKnown s"
  by (simp_all add: linksKnown_def stopSimulation_fields)


lemma example_known: "linksKnown (exampleStart w h)"
  by (simp add: linksKnown_def example_start(3) example_nodes(1))



section \<open>The edge invariant along a run\<close>

text \<open>
  No operation of the view changes the id of a node, and the link force stores references
  to nodes of the store only. So in every state that a run reaches from
  \<open>initializeGraph\<close> the links are known; and once the endpoints of all links are node
  objects they stay node objects.
\<close>

lemma setPin_ids: "map n_id (setPin r a b ns) = map n_id ns"
proof (cases "r < length ns")
  case True
  then show ?thesis
    by (simp add: setPin_def map_update list_update_same_conv)
next
  case False
  then show ?thesis
    by (simp add: setPin_def list_update_beyond)
qed

lemma clearPins_ids: "map n_id (clearPins rs ns) = map n_id ns"
  by (induction rs arbitrary: ns) (simp_all add: setPin_ids)

lemma radialLoop_ids: "map n_id (radialLoop cx cy st cats rnd j rs ns) = map n_id ns"
  by (induction rs arbitrary: j ns) (simp_all add: Let_def setPin_ids)

lemma rowLoop_ids: "map n_id (rowLoop x rh k rs ns) = map n_id ns"
  by (induction rs arbitrary: k ns) (simp_all add: setPin_ids)

lemma columnLoop_ids: "map n_id (columnLoop cw h fn c cats ns) = map n_id ns"
  by (induction cats arbitrary: c ns) (simp_all add: Let_def rowLoop_ids)

lemma update_position_ids:
  "map n_id (ns[r := (ns ! r)\<lparr>n_x := a, n_y := b\<rparr>]) = map n_id ns"
proof (cases "r < length ns")
  case True
  then show ?thesis
    by (simp add: map_update list_update_same_conv)
next
  case False
  then show ?thesis
    by (simp add: list_update_beyond)
qed

lemma stepNodes_ids: "map n_id (stepNodes move rs ns) = map n_id ns"
  by (induction rs arbitrary: ns) (simp_all add: update_position_ids)

lemma createForceLayout_all_ids:
  "map n_id (nodes (snd (createForceLayout place s))) = map n_id (nodes s)"
  by (rule nth_equalityI) (simp_all add: createForceLayout_length createForceLayout_ids)

lemma knownEnd_cong: "map n_id ns' = map n_id ns \<Longrightarrow> knownEnd ns' e = knownEnd ns e"
proof -
  assume m: "map n_id ns' = map n_id ns"
  from arg_cong [OF m, of length] have "length ns' = length ns" by simp
  with m show ?thesis by (cases e) simp_all
qed

lemma linksKnown_cong:
  "map n_id (nodes s') = map n_id (nodes s) \<Longrightarrow> links s' = links s \<Longrightarrow>
     linksKnown s' = linksKnown s"
proof -
  assume m: "map n_id (nodes s') = map n_id (nodes s)" and l: "links s' = links s"
  have "knownEnd (nodes s') e = knownEnd (nodes s) e" for e
    by (rule knownEnd_cong) (rule m)
  with l show ?thesis by (simp add: linksKnown_def)
qed

lemma createForceLayout_known:
  assumes "linksKnown s"
  shows "linksKnown (snd (createForceLayout place s))"
proof -
  let ?s' = "snd (createForceLayout place s)"
  let ?F = "filteredNodes (nodes s) (currentFilter s)"
  have same: "knownEnd (nodes ?s') e = knownEnd (nodes s) e" for e
    by (rule knownEnd_cong) (rule createForceLayout_all_ids)
  from assms have old: "\<forall>l \<in> set (links s).
      knownEnd (nodes ?s') (l_source l) \<and> knownEnd (nodes ?s') (l_target l)"
    by (simp add: linksKnown_def list_all_iff same)
  have new: "\<forall>r \<in> set ?F. knownEnd (nodes ?s') (ENode r)"
    by (simp add: createForceLayout_length filteredNodes_bound)
  from resolveLinks_all [where P = "knownEnd (nodes ?s')", OF old new]
  show ?thesis
    by (simp add: linksKnown_def list_all_iff createForceLayout_parts(3))
qed

lemma updateLayout_known:
  assumes "linksKnown s"
  shows "linksKnown (snd (updateLayout place rnd s))"
proof -
  have stop: "linksKnown (stopSimulation s)"
    using assms by (simp add: linksKnown_def stopSimulation_fields)
  have "linksKnown (createRadialLayout rnd (stopSimulation s)) = linksKnown (stopSimulation s)"
    by (rule linksKnown_cong)
      (simp_all add: createRadialLayout_def drawStaticLayout_def Let_def radialLoop_ids)
  with stop have r: "linksKnown (createRadialLayout rnd (stopSimulation s))" by simp
  have "linksKnown (createHierarchicalLayout (stopSimulation s)) = linksKnown (stopSimulation s)"
    by (rule linksKnown_cong)
      (simp_all add: createHierarchicalLayout_def drawStaticLayout_def Let_def columnLoop_ids)
  with stop have h: "linksKnown (createHierarchicalLayout (stopSimulation s))" by simp
  from stop r h createForceLayout_known [OF stop, of place] show ?thesis
    by (simp add: updateLayout_def Let_def)
qed

lemma initializeGraph_known: "linksKnown (snd (initializeGraph place experiments w h))"
  unfolding initializeGraph_def by (rule createForceLayout_known) (rule initial_links_known)

lemma events_known:
  assumes "linksKnown s"
  shows "linksKnown (snd (filterChange v place rnd s))"
    and "linksKnown (snd (layoutChange v place rnd s))"
    and "linksKnown (dragstarted e d s)"
    and "linksKnown (dragged e d s)"
    and "linksKnown (dragended e d s)"
    and "linksKnown (simulationTick move s)"
proof -
  show "linksKnown (snd (filterChange v place rnd s))"
    unfolding filterChange_def using assms
    by (intro updateLayout_known) (simp add: linksKnown_def)
  show "linksKnown (snd (layoutChange v place rnd s))"
    unfolding layoutChange_def using assms
    by (intro updateLayout_known) (simp add: linksKnown_def)
  have "linksKnown (dragstarted e d s) = linksKnown s"
    by (rule linksKnown_cong)
      (simp_all add: dragstarted_def Let_def setPin_ids split: option.splits)
  with assms show "linksKnown (dragstarted e d s)" by simp
  have "linksKnown (dragged e d s) = linksKnown s"
    by (rule linksKnown_cong) (simp_all add: dragged_def setPin_ids)
  with assms show "linksKnown (dragged e d s)" by simp
  have "linksKnown (dragended e d s) = linksKnown s"
    by (rule linksKnown_cong) (simp_all add: dragended_def split: option.splits)
  with assms show "linksKnown (dragended e d s)" by simp
  have "linksKnown (simulationTick move s) = linksKnown s"
    by (rule linksKnown_cong)
      (simp_all add: simulationTick_def stepNodes_ids split: option.splits)
  with assms show "linksKnown (simulationTick move s)" by simp
qed

lemma updateLayout_keeps_objects:
  assumes "\<forall>l \<in> set (links s). (\<exists>a. l_source l = ENode a) \<and> (\<exists>b. l_target l = ENode b)"
  shows "\<forall>l \<in> set (links (snd (updateLayout place rnd s))).
      (\<exists>a. l_source l = ENode a) \<and> (\<exists>b. l_target l = ENode b)"
proof -
  have stop: "\<forall>l \<in> set (links (stopSimulation s)).
      (\<exists>a. l_source l = ENode a) \<and> (\<exists>b. l_target l = ENode b)"
    using assms by (simp add: stopSimulation_fields)
  have force: "\<forall>l \<in> set (links (snd (createForceLayout place (stopSimulation s)))).
      (\<exists>a. l_source l = ENode a) \<and> (\<exists>b. l_target l = ENode b)"
    unfolding createForceLayout_parts(3)
    by (rule resolveLinks_all [where P = "\<lambda>e. \<exists>a. e = ENode a"]) (simp_all add: stop)
  from stop force show ?thesis
    by (simp add: updateLayout_def Let_def createRadialLayout_def createHierarchicalLayout_def)
qed

text \<open>The pins are not touched by a step of the simulation.\<close>

lemma stepNodes_pins:
  "n_fx (stepNodes move rs ns ! i) = n_fx (ns ! i) \<and> n_fy (stepNodes move rs ns ! i) = n_fy (ns ! i)"
proof (induction rs arbitrary: ns)
  case Nil
  show ?case by simp
next
  case (Cons r rs)
  have one: "n_fx (ns[r := (ns ! r)\<lparr>n_x := a, n_y := b\<rparr>] ! i) = n_fx (ns ! i)
      \<and> n_fy (ns[r := (ns ! r)\<lparr>n_x := a, n_y := b\<rparr>] ! i) = n_fy (ns ! i)" for a b
  proof (cases "r < length ns")
    case True
    then show ?thesis by (cases "i = r") simp_all
  next
    case False
    then show ?thesis by (simp add: list_update_beyond)
  qed
  show ?case
    by (simp add: Cons.IH one)
qed

section \<open>The empty selection\<close>

lemma newSet_Nil: "newSet [] = []"
  by (simp add: newSet_def)

text \<open>
  C9. When the filtered node set is empty (and no link refers to a node that is not
  there), each of the three layouts raises nothing, leaves every node as it was and draws
  nothing: the groups of the scene are empty, and the force simulation is made on no
  node. The loop of the radial layout then returns the store whatever the angle step is,
  so the quotient of 2 pi by the number of categories, zero here, is never read; the
  column width of the hierarchical layout divides by the number of categories plus one,
  which is one. The two static layouts are total functions without a failing branch.
\<close>

theorem empty_selection_layouts:
  "filteredNodes (nodes s) (currentFilter s) = [] \<Longrightarrow> linksKnown s \<Longrightarrow>
     fst (createForceLayout place s) = None
   \<and> nodes (snd (createForceLayout place s)) = nodes s
   \<and> concat (scene (snd (createForceLayout place s))) = []
   \<and> map_option sim_nodes (simulation (snd (createForceLayout place s))) = Some []
   \<and> nodes (createRadialLayout rnd s) = nodes s
   \<and> concat (scene (createRadialLayout rnd s)) = []
   \<and> radialLoop cX cY anyStep
        (categoriesOf (nodes s) (filteredNodes (nodes s) (currentFilter s)))
        rnd 0 (filteredNodes (nodes s) (currentFilter s)) (nodes s) = nodes s
   \<and> nodes (createHierarchicalLayout s) = nodes s
   \<and> concat (scene (createHierarchicalLayout s)) = []
   \<and> real (length (categoriesOf (nodes s) (filteredNodes (nodes s) (currentFilter s)))) + 1 = 1"
proof -
  assume e: "filteredNodes (nodes s) (currentFilter s) = []"
  assume known: "linksKnown s"
  have fl: "filteredLinks (nodes s) (links s) (currentFilter s) = []"
  proof (cases "currentFilter s = ''all''")
    case True
    with e have n: "nodes s = []" by (simp add: filteredNodes_def allRefs_def)
    have "\<not> knownEnd [] x" for x by (cases x) simp_all
    with known n have "links s = []"
      by (cases "links s") (simp_all add: linksKnown_def)
    with True show ?thesis by (simp add: filteredLinks_def allLinkRefs_def)
  next
    case False
    have "\<not> hasId {} x" for x by (cases x) simp_all
    with False show ?thesis by (simp add: filteredLinks_def e Let_def)
  qed
  have ok: "fst (createForceLayout place s) = None"
    using known by (simp add: createForceLayout_ok)
  have n: "nodes (snd (createForceLayout place s)) = nodes s"
    by (simp add: createForceLayout_parts(1) e)
  from createForceLayout_drawn [OF ok, of] have
    "concat (scene (snd (createForceLayout place s))) = []"
    "map_option sim_nodes (simulation (snd (createForceLayout place s))) = Some []"
    by (simp_all add: e fl)
  with ok n show ?thesis
    by (simp add: createRadialLayout_def createHierarchicalLayout_def
        drawStaticLayout_def Let_def e newSet_Nil categoriesOf_def)
qed

theorem empty_selection_layouts_witness:
  "filteredNodes (nodes ((exampleStart 800 600)\<lparr>currentFilter := ''C''\<rparr>))
      (currentFilter ((exampleStart 800 600)\<lparr>currentFilter := ''C''\<rparr>)) = []
   \<and> linksKnown ((exampleStart 800 600)\<lparr>currentFilter := ''C''\<rparr>)
   \<and> fst (createForceLayout (\<lambda>i. (0, 0)) ((exampleStart 800 600)\<lparr>currentFilter := ''C''\<rparr>)) = None
   \<and> nodes (snd (createForceLayout (\<lambda>i. (0, 0)) ((exampleStart 800 600)\<lparr>currentFilter := ''C''\<rparr>)))
        = nodes (exampleStart 800 600)
   \<and> concat (scene (snd (createForceLayout (\<lambda>i. (0, 0))
        ((exampleStart 800 600)\<lparr>currentFilter := ''C''\<rparr>)))) = []
   \<and> nodes (createRadialLayout (\<lambda>j. 0) ((exampleStart 800 600)\<lparr>currentFilter := ''C''\<rparr>))
        = nodes (exampleStart 800 600)
   \<and> concat (scene (createRadialLayout (\<lambda>j. 0)
        ((exampleStart 800 600)\<lparr>currentFilter := ''C''\<rparr>))) = []
   \<and> nodes (createHierarchicalLayout ((exampleStart 800 600)\<lparr>currentFilter := ''C''\<rparr>))
        = nodes (exampleStart 800 600)
   \<and> concat (scene (createHierarchicalLayout
        ((exampleStart 800 600)\<lparr>currentFilter := ''C''\<rparr>))) = []"
proof -
  let ?s = "(exampleStart 800 600)\<lparr>currentFilter := ''C''\<rparr>"
  have e: "filteredNodes (nodes ?s) (currentFilter ?s) = []"
    by (simp add: example_filteredNodes)
  have k: "linksKnown ?s"
    by (simp add: linksKnown_fields example_known)
  from e k empty_selection_layouts [OF e k, of "\<lambda>i. (0, 0)" "\<lambda>j. 0" 0 0 0]
  show ?thesis
    by simp
qed

section \<open>Insertion-ordered sets and positions\<close>

lemma setAdd_old: "v \<in> set acc \<Longrightarrow> setAdd acc v = acc"
  by (simp add: setAdd_def)

lemma setAdd_new: "v \<notin> set acc \<Longrightarrow> setAdd acc v = acc @ [v]"
  by (simp add: setAdd_def)

lemma foldl_setAdd:
  "distinct acc \<Longrightarrow>
     distinct (foldl setAdd acc xs) \<and> set (foldl setAdd acc xs) = set acc \<union> set xs"
proof (induction xs arbitrary: acc)
  case Nil
  then show ?case by simp
next
  case (Cons x xs)
  show ?case
  proof (cases "x \<in> set acc")
    case True
    with Cons.IH [OF Cons.prems] show ?thesis
      by (auto simp: setAdd_old)
  next
    case False
    with Cons.prems have "distinct (acc @ [x])" by simp
    from Cons.IH [OF this] False show ?thesis
      by (auto simp: setAdd_new)
  qed
qed

lemma newSet_distinct: "distinct (newSet xs)"
  using foldl_setAdd [of "[]" xs] by (simp add: newSet_def)

lemma newSet_set: "set (newSet xs) = set xs"
  using foldl_setAdd [of "[]" xs] by (simp add: newSet_def)

text \<open>The order is the order of first occurrence.\<close>

lemma foldl_setAdd_append:
  "foldl setAdd acc xs = acc @ filter (\<lambda>y. y \<notin> set acc) (foldl setAdd [] xs)"
proof (induction xs arbitrary: acc)
  case Nil
  show ?case by simp
next
  case (Cons x xs)
  have one: "foldl setAdd [x] xs = [x] @ filter (\<lambda>y. y \<notin> set [x]) (foldl setAdd [] xs)"
    by (rule Cons.IH)
  show ?case
  proof (cases "x \<in> set acc")
    case True
    have "filter (\<lambda>y. y \<notin> set acc) (filter (\<lambda>y. y \<noteq> x) (foldl setAdd [] xs)) =
        filter (\<lambda>y. y \<notin> set acc) (foldl setAdd [] xs)"
      using True by (auto intro: filter_cong)
    with True one Cons.IH [of acc] show ?thesis
      by (simp add: setAdd_old setAdd_new)
  next
    case False
    have "filter (\<lambda>y. y \<notin> set (acc @ [x])) (foldl setAdd [] xs) =
        filter (\<lambda>y. y \<notin> set acc) (filter (\<lambda>y. y \<noteq> x) (foldl setAdd [] xs))"
      by (auto intro: filter_cong)
    with False one Cons.IH [of "acc @ [x]"] show ?thesis
      by (simp add: setAdd_new)
  qed
qed

lemma newSet_Cons: "newSet (x # xs) = x # filter (\<lambda>y. y \<noteq> x) (newSet xs)"
  using foldl_setAdd_append [of "[x]" xs] by (simp add: newSet_def setAdd_new)

lemma indexOf_range:
  "v \<in> set xs \<Longrightarrow> 0 \<le> indexOf xs v \<and> indexOf xs v < int (length xs) \<and> xs ! nat (indexOf xs v) = v"
  by (induction xs) (auto simp: Let_def nat_add_distrib)

lemma indexOf_nth:
  "distinct xs \<Longrightarrow> i < length xs \<Longrightarrow> indexOf xs (xs ! i) = int i"
proof (induction xs arbitrary: i)
  case Nil
  then show ?case by simp
next
  case (Cons x xs)
  show ?case
  proof (cases i)
    case 0
    then show ?thesis by simp
  next
    case (Suc n)
    with Cons.prems have n: "n < length xs" and d: "distinct xs" and ne: "x \<noteq> xs ! n"
      by auto
    from Cons.IH [OF d n] ne Suc show ?thesis
      by (simp add: Let_def)
  qed
qed

subsection \<open>The row loop\<close>

lemma rowLoop_length: "length (rowLoop x rh k rs ns) = length ns"
  by (induction rs arbitrary: k ns) (simp_all add: setPin_length)

lemma rowLoop_category: "n_category (rowLoop x rh k rs ns ! i) = n_category (ns ! i)"
  by (induction rs arbitrary: k ns) (simp_all add: setPin_cat)

lemma rowLoop_other: "i \<notin> set rs \<Longrightarrow> rowLoop x rh k rs ns ! i = ns ! i"
  by (induction rs arbitrary: k ns) (auto simp: setPin_def)

lemma rowLoop_member:
  "distinct rs \<Longrightarrow> \<forall>r \<in> set rs. r < length ns \<Longrightarrow> j < length rs \<Longrightarrow>
     rowLoop x rh k rs ns ! (rs ! j) =
       (ns ! (rs ! j))\<lparr>n_fx := Some x, n_fy := Some (rh * (real (k + j) + 1))\<rparr>"
proof (induction rs arbitrary: k ns j)
  case Nil
  from Nil.prems(3) show ?case by simp
next
  case (Cons r rs)
  let ?ns1 = "setPin r (Some x) (Some (rh * (real k + 1))) ns"
  show ?case
  proof (cases j)
    case 0
    from Cons.prems have "r \<notin> set rs" and "r < length ns" by auto
    then show ?thesis
      using 0 by (simp add: rowLoop_other setPin_nth)
  next
    case (Suc n)
    from Cons.prems Suc have d: "distinct rs" and n: "n < length rs"
      and b: "\<forall>q \<in> set rs. q < length ?ns1" and ne: "rs ! n \<noteq> r"
      by (auto simp: setPin_length)
    from Cons.prems Suc have lt: "rs ! n < length ns" by auto
    have e1: "rowLoop x rh k (r # rs) ns ! ((r # rs) ! j) =
        rowLoop x rh (Suc k) rs ?ns1 ! (rs ! n)"
      using Suc by simp
    have e2: "rowLoop x rh (Suc k) rs ?ns1 ! (rs ! n) =
        (?ns1 ! (rs ! n))\<lparr>n_fx := Some x, n_fy := Some (rh * (real (Suc k + n) + 1))\<rparr>"
      by (rule Cons.IH [OF d b n])
    have e3: "?ns1 ! (rs ! n) = ns ! (rs ! n)"
      using ne lt by (simp add: setPin_nth)
    have e4: "real (Suc k + n) = real (k + j)"
      using Suc by simp
    show ?thesis
      unfolding e1 e2 e3 e4 using Suc by simp
  qed
qed

subsection \<open>The column loop\<close>

lemma categoryNodes_cong:
  "(\<And>i. n_category (ns' ! i) = n_category (ns ! i)) \<Longrightarrow>
     categoryNodes ns' fn cat = categoryNodes ns fn cat"
  by (simp add: categoryNodes_def)

lemma columnLoop_Cons:
  "columnLoop cw h fn c (cat # rest) ns =
     columnLoop cw h fn (Suc c) rest
       (rowLoop (cw * (real c + 1)) (h / (real (length (categoryNodes ns fn cat)) + 1)) 0
          (categoryNodes ns fn cat) ns)"
  by (simp add: Let_def)

lemma columnLoop_length: "length (columnLoop cw h fn c cats ns) = length ns"
  by (induction cats arbitrary: c ns) (simp_all add: Let_def rowLoop_length)

lemma columnLoop_category:
  "n_category (columnLoop cw h fn c cats ns ! i) = n_category (ns ! i)"
  by (induction cats arbitrary: c ns) (simp_all add: Let_def rowLoop_category)

lemma columnLoop_other:
  "n_category (ns ! i) \<notin> set cats \<Longrightarrow> columnLoop cw h fn c cats ns ! i = ns ! i"
proof (induction cats arbitrary: c ns)
  case Nil
  show ?case by simp
next
  case (Cons cat rest)
  let ?ns1 = "rowLoop (cw * (real c + 1)) (h / (real (length (categoryNodes ns fn cat)) + 1)) 0
      (categoryNodes ns fn cat) ns"
  from Cons.prems have "i \<notin> set (categoryNodes ns fn cat)"
    by (auto simp: categoryNodes_def)
  then have same: "?ns1 ! i = ns ! i"
    by (rule rowLoop_other)
  from Cons.prems have "n_category (?ns1 ! i) \<notin> set rest"
    by (simp add: rowLoop_category)
  from Cons.IH [OF this] same show ?case
    by (simp only: columnLoop_Cons)
qed

lemma columnLoop_member:
  assumes "distinct fn" and "\<forall>r \<in> set fn. r < length ns" and "distinct cats"
    and "c' < length cats" and "j < length (categoryNodes ns fn (cats ! c'))"
  shows "columnLoop cw h fn c cats ns ! (categoryNodes ns fn (cats ! c') ! j) =
     (ns ! (categoryNodes ns fn (cats ! c') ! j))
       \<lparr>n_fx := Some (cw * (real (c + c') + 1)),
        n_fy := Some (h / (real (length (categoryNodes ns fn (cats ! c'))) + 1) * (real j + 1))\<rparr>"
  using assms
proof (induction cats arbitrary: c ns c')
  case Nil
  from Nil.prems(4) show ?case by simp
next
  case (Cons cat rest)
  let ?Mcat = "categoryNodes ns fn cat"
  let ?ns1 = "rowLoop (cw * (real c + 1)) (h / (real (length ?Mcat) + 1)) 0 ?Mcat ns"
  have dM0: "distinct ?Mcat"
    using Cons.prems(1) by (simp add: categoryNodes_def)
  have bM0: "\<forall>r \<in> set ?Mcat. r < length ns"
    using Cons.prems(2) by (simp add: categoryNodes_def)
  show ?case
  proof (cases c')
    case 0
    let ?r = "?Mcat ! j"
    from 0 Cons.prems(5) have j: "j < length ?Mcat" by simp
    then have "?r \<in> set ?Mcat" by (rule nth_mem)
    then have cat_r: "n_category (ns ! ?r) = cat"
      by (simp add: categoryNodes_def)
    from Cons.prems(3) have "cat \<notin> set rest" by simp
    with cat_r have "n_category (?ns1 ! ?r) \<notin> set rest"
      by (simp add: rowLoop_category)
    then have e1: "columnLoop cw h fn (Suc c) rest ?ns1 ! ?r = ?ns1 ! ?r"
      by (rule columnLoop_other)
    have e2: "?ns1 ! ?r =
        (ns ! ?r)\<lparr>n_fx := Some (cw * (real c + 1)),
          n_fy := Some (h / (real (length ?Mcat) + 1) * (real (0 + j) + 1))\<rparr>"
      by (rule rowLoop_member [OF dM0 bM0 j])
    show ?thesis
      unfolding columnLoop_Cons using 0 e1 e2 by simp
  next
    case (Suc n)
    let ?Mn = "categoryNodes ns fn (rest ! n)"
    let ?r = "?Mn ! j"
    from Suc Cons.prems(4) have n: "n < length rest" by simp
    from Suc Cons.prems(5) have j: "j < length ?Mn" by simp
    have M1: "categoryNodes ?ns1 fn (rest ! n) = ?Mn"
      by (rule categoryNodes_cong) (rule rowLoop_category)
    from Cons.prems(3) have dr: "distinct rest" by simp
    from Cons.prems(2) have b1: "\<forall>r \<in> set fn. r < length ?ns1"
      by (simp add: rowLoop_length)
    from j have j1: "j < length (categoryNodes ?ns1 fn (rest ! n))"
      by (simp only: M1)
    have ih: "columnLoop cw h fn (Suc c) rest ?ns1 ! ?r =
        (?ns1 ! ?r)\<lparr>n_fx := Some (cw * (real (Suc c + n) + 1)),
          n_fy := Some (h / (real (length ?Mn) + 1) * (real j + 1))\<rparr>"
      using Cons.IH [OF Cons.prems(1) b1 dr n j1, of "Suc c"] by (simp only: M1)
    from j have "?r \<in> set ?Mn" by (rule nth_mem)
    then have cat_r: "n_category (ns ! ?r) = rest ! n"
      by (simp add: categoryNodes_def)
    from Cons.prems(3) n have ne: "rest ! n \<noteq> cat" by auto
    have "\<forall>q \<in> set ?Mcat. n_category (ns ! q) = cat"
      by (simp add: categoryNodes_def)
    with cat_r ne have "?r \<notin> set ?Mcat"
      by auto
    then have same: "?ns1 ! ?r = ns ! ?r"
      by (rule rowLoop_other)
    have idx: "real (Suc c + n) = real (c + c')"
      using Suc by simp
    have nth_eq: "(cat # rest) ! c' = rest ! n"
      using Suc by simp
    show ?thesis
      unfolding columnLoop_Cons nth_eq ih same idx by (rule refl)
  qed
qed

text \<open>The hierarchical layout on a state: where every filtered node ends.\<close>

lemma hierarchical_member:
  assumes "c < length (categoriesOf (nodes s) (filteredNodes (nodes s) (currentFilter s)))"
    and "j < length (categoryNodes (nodes s) (filteredNodes (nodes s) (currentFilter s))
          (categoriesOf (nodes s) (filteredNodes (nodes s) (currentFilter s)) ! c))"
  shows "nodes (createHierarchicalLayout s) !
      (categoryNodes (nodes s) (filteredNodes (nodes s) (currentFilter s))
          (categoriesOf (nodes s) (filteredNodes (nodes s) (currentFilter s)) ! c) ! j) =
     (nodes s ! (categoryNodes (nodes s) (filteredNodes (nodes s) (currentFilter s))
          (categoriesOf (nodes s) (filteredNodes (nodes s) (currentFilter s)) ! c) ! j))
       \<lparr>n_fx := Some (real (clientWidth s) /
            (real (length (categoriesOf (nodes s) (filteredNodes (nodes s) (currentFilter s)))) + 1)
            * (real c + 1)),
        n_fy := Some (real (clientHeight s) /
            (real (length (categoryNodes (nodes s) (filteredNodes (nodes s) (currentFilter s))
              (categoriesOf (nodes s) (filteredNodes (nodes s) (currentFilter s)) ! c))) + 1)
            * (real j + 1))\<rparr>"
proof -
  let ?F = "filteredNodes (nodes s) (currentFilter s)"
  let ?cats = "categoriesOf (nodes s) ?F"
  have d: "distinct ?F" by (rule filteredNodes_distinct)
  have b: "\<forall>r \<in> set ?F. r < length (nodes s)" by (simp add: filteredNodes_bound)
  have dc: "distinct ?cats" by (simp add: categoriesOf_def newSet_distinct)
  from columnLoop_member [OF d b dc assms, of _ _ 0]
  show ?thesis
    by (simp add: createHierarchicalLayout_def Let_def)
qed

lemma filtered_node_place:
  assumes "r \<in> set fn"
  shows "\<exists>c < length (categoriesOf ns fn). \<exists>j < length (categoryNodes ns fn (categoriesOf ns fn ! c)).
      categoriesOf ns fn ! c = n_category (ns ! r)
      \<and> categoryNodes ns fn (categoriesOf ns fn ! c) ! j = r"
proof -
  from assms have "n_category (ns ! r) \<in> set (categoriesOf ns fn)"
    by (simp add: categoriesOf_def newSet_set)
  then obtain c where c: "c < length (categoriesOf ns fn)"
    and cc: "categoriesOf ns fn ! c = n_category (ns ! r)"
    by (auto simp: in_set_conv_nth)
  from assms have "r \<in> set (categoryNodes ns fn (categoriesOf ns fn ! c))"
    by (simp add: categoryNodes_def cc)
  then obtain j where j: "j < length (categoryNodes ns fn (categoriesOf ns fn ! c))"
    and jj: "categoryNodes ns fn (categoriesOf ns fn ! c) ! j = r"
    by (auto simp: in_set_conv_nth)
  from c cc j jj show ?thesis by blast
qed

text \<open>
  C5, as the script has it. Let k be the number of distinct categories of the filtered
  nodes, in order of first occurrence. The hierarchical layout pins the member with row
  index j of the category with column index c at x = width / (k + 1) * (c + 1) and
  y = height / (m + 1) * (j + 1), where m is the number of members of that category, and
  every filtered node is such a member. Hence two filtered nodes of one category get the
  same x; and when the height of the viewport is not zero, two different filtered nodes
  of one category get different y.
\<close>

theorem hierarchical_layout_positions:
  "let F = filteredNodes (nodes s) (currentFilter s);
       cats = categoriesOf (nodes s) F;
       k = length cats;
       s' = createHierarchicalLayout s
   in (\<forall>c < k. \<forall>j < length (categoryNodes (nodes s) F (cats ! c)).
          n_fx (nodes s' ! (categoryNodes (nodes s) F (cats ! c) ! j)) =
            Some (real (clientWidth s) / (real k + 1) * (real c + 1))
        \<and> n_fy (nodes s' ! (categoryNodes (nodes s) F (cats ! c) ! j)) =
            Some (real (clientHeight s) /
              (real (length (categoryNodes (nodes s) F (cats ! c))) + 1) * (real j + 1)))
    \<and> (\<forall>r \<in> set F. \<exists>c < k. \<exists>j < length (categoryNodes (nodes s) F (cats ! c)).
          cats ! c = n_category (nodes s ! r) \<and> categoryNodes (nodes s) F (cats ! c) ! j = r)
    \<and> (\<forall>r \<in> set F. \<forall>q \<in> set F.
          n_category (nodes s ! r) = n_category (nodes s ! q) \<longrightarrow>
          n_fx (nodes s' ! r) = n_fx (nodes s' ! q))
    \<and> (clientHeight s \<noteq> 0 \<longrightarrow>
         (\<forall>r \<in> set F. \<forall>q \<in> set F.
            n_category (nodes s ! r) = n_category (nodes s ! q) \<and> r \<noteq> q \<longrightarrow>
            n_fy (nodes s' ! r) \<noteq> n_fy (nodes s' ! q)))"
proof -
  let ?ns = "nodes s"
  let ?F = "filteredNodes ?ns (currentFilter s)"
  let ?cats = "categoriesOf ?ns ?F"
  let ?k = "length ?cats"
  let ?s' = "createHierarchicalLayout s"
  let ?W = "real (clientWidth s)"
  let ?H = "real (clientHeight s)"
  have dc: "distinct ?cats"
    by (simp add: categoriesOf_def newSet_distinct)
  have pos: "n_fx (nodes ?s' ! (categoryNodes ?ns ?F (?cats ! c) ! j)) =
        Some (?W / (real ?k + 1) * (real c + 1))
      \<and> n_fy (nodes ?s' ! (categoryNodes ?ns ?F (?cats ! c) ! j)) =
        Some (?H / (real (length (categoryNodes ?ns ?F (?cats ! c))) + 1) * (real j + 1))"
    if "c < ?k" and "j < length (categoryNodes ?ns ?F (?cats ! c))" for c j
    using hierarchical_member [OF that] by simp
  have place: "\<exists>c < ?k. \<exists>j < length (categoryNodes ?ns ?F (?cats ! c)).
      ?cats ! c = n_category (?ns ! r) \<and> categoryNodes ?ns ?F (?cats ! c) ! j = r"
    if "r \<in> set ?F" for r
    using that by (rule filtered_node_place)
  have same_x: "n_fx (nodes ?s' ! r) = n_fx (nodes ?s' ! q)"
    if r: "r \<in> set ?F" and q: "q \<in> set ?F"
      and eq: "n_category (?ns ! r) = n_category (?ns ! q)" for r q
  proof -
    from place [OF r] obtain c j where c: "c < ?k"
      and j: "j < length (categoryNodes ?ns ?F (?cats ! c))"
      and cc: "?cats ! c = n_category (?ns ! r)"
      and jj: "categoryNodes ?ns ?F (?cats ! c) ! j = r"
      by blast
    from place [OF q] obtain c' j' where c': "c' < ?k"
      and j': "j' < length (categoryNodes ?ns ?F (?cats ! c'))"
      and cc': "?cats ! c' = n_category (?ns ! q)"
      and jj': "categoryNodes ?ns ?F (?cats ! c') ! j' = q"
      by blast
    from cc cc' eq have "?cats ! c = ?cats ! c'" by simp
    with dc c c' have "c = c'" by (simp add: nth_eq_iff_index_eq)
    with pos [OF c j] pos [OF c' j'] jj jj' show ?thesis by simp
  qed
  have diff_y: "n_fy (nodes ?s' ! r) \<noteq> n_fy (nodes ?s' ! q)"
    if h: "clientHeight s \<noteq> 0" and r: "r \<in> set ?F" and q: "q \<in> set ?F"
      and eq: "n_category (?ns ! r) = n_category (?ns ! q)" and ne: "r \<noteq> q" for r q
  proof -
    from place [OF r] obtain c j where c: "c < ?k"
      and j: "j < length (categoryNodes ?ns ?F (?cats ! c))"
      and cc: "?cats ! c = n_category (?ns ! r)"
      and jj: "categoryNodes ?ns ?F (?cats ! c) ! j = r"
      by blast
    from place [OF q] obtain c' j' where c': "c' < ?k"
      and j': "j' < length (categoryNodes ?ns ?F (?cats ! c'))"
      and cc': "?cats ! c' = n_category (?ns ! q)"
      and jj': "categoryNodes ?ns ?F (?cats ! c') ! j' = q"
      by blast
    from cc cc' eq have "?cats ! c = ?cats ! c'" by simp
    with dc c c' have same: "c = c'" by (simp add: nth_eq_iff_index_eq)
    from jj jj' ne same have jne: "j \<noteq> j'" by auto
    let ?m = "real (length (categoryNodes ?ns ?F (?cats ! c))) + 1"
    have mpos: "?m > 0" by simp
    from h have hne: "?H \<noteq> 0" by simp
    from jne have "real j + 1 \<noteq> real j' + 1" by simp
    with hne mpos have "?H / ?m * (real j + 1) \<noteq> ?H / ?m * (real j' + 1)"
      by simp
    with pos [OF c j] pos [OF c' j'] jj jj' same show ?thesis by simp
  qed
  show ?thesis
    unfolding Let_def using pos place same_x diff_y by blast
qed

theorem hierarchical_layout_positions_witness:
  "filteredNodes (nodes (exampleStart 800 600))
      (currentFilter (exampleStart 800 600)) = [0, 1, 2]
   \<and> clientHeight (exampleStart 800 600) \<noteq> 0
   \<and> n_fx (nodes (createHierarchicalLayout (exampleStart 800 600)) ! 2) =
        Some (800 / 3)
   \<and> n_fy (nodes (createHierarchicalLayout (exampleStart 800 600)) ! 2) =
        Some 400
   \<and> n_fx (nodes (createHierarchicalLayout (exampleStart 800 600)) ! 1) =
        Some (1600 / 3)
   \<and> n_fy (nodes (createHierarchicalLayout (exampleStart 800 600)) ! 1) =
        Some 300
   \<and> n_fx (nodes (createHierarchicalLayout (exampleStart 800 600)) ! 0) =
        n_fx (nodes (createHierarchicalLayout (exampleStart 800 600)) ! 2)
   \<and> n_fy (nodes (createHierarchicalLayout (exampleStart 800 600)) ! 0) \<noteq>
        n_fy (nodes (createHierarchicalLayout (exampleStart 800 600)) ! 2)"
proof -
  let ?s = "exampleStart 800 600"
  have F: "filteredNodes (nodes ?s) (currentFilter ?s) = [0, 1, 2]"
    by (simp add: example_start(4) example_filteredNodes)
  have h: "clientHeight ?s \<noteq> 0"
    by (simp add: example_start(7))
  note t = hierarchical_layout_positions [of ?s, unfolded Let_def F]
  have a: "n_fx (nodes (createHierarchicalLayout ?s) ! 2) = Some (800 / 3)
      \<and> n_fy (nodes (createHierarchicalLayout ?s) ! 2) = Some 400"
    using t [THEN conjunct1, rule_format, of 0 1]
    by (simp add: example_start(4,6,7) example_nodes example_layout_data)
  have b: "n_fx (nodes (createHierarchicalLayout ?s) ! 1) = Some (1600 / 3)
      \<and> n_fy (nodes (createHierarchicalLayout ?s) ! 1) = Some 300"
    using t [THEN conjunct1, rule_format, of 1 0]
    by (simp add: example_start(4,6,7) example_nodes example_layout_data)
  have c: "n_fx (nodes (createHierarchicalLayout ?s) ! 0) =
      n_fx (nodes (createHierarchicalLayout ?s) ! 2)"
    using t [THEN conjunct2, THEN conjunct2, THEN conjunct1, rule_format, of 0 2]
    by (simp add: example_start(4) example_nodes example_layout_data)
  have d: "n_fy (nodes (createHierarchicalLayout ?s) ! 0) \<noteq>
      n_fy (nodes (createHierarchicalLayout ?s) ! 2)"
    using t [THEN conjunct2, THEN conjunct2, THEN conjunct2, rule_format, OF h, of 0 2]
    by (simp add: example_start(4) example_nodes example_layout_data)
  from F h a b c d show ?thesis by blast
qed

text \<open>
  C5 as the specification words it fails on a viewport of height zero: category A of the
  example has two members, nodes 0 and 2, and both are pinned at y = 0.
\<close>

theorem hierarchical_flat_viewport:
  "categoryNodes (nodes (exampleStart 800 0))
      (filteredNodes (nodes (exampleStart 800 0))
        (currentFilter (exampleStart 800 0))) ''A'' = [0, 2]
   \<and> n_fy (nodes (createHierarchicalLayout (exampleStart 800 0)) ! 0) = Some 0
   \<and> n_fy (nodes (createHierarchicalLayout (exampleStart 800 0)) ! 2) = Some 0"
proof -
  let ?s = "exampleStart 800 0"
  have F: "filteredNodes (nodes ?s) (currentFilter ?s) = [0, 1, 2]"
    by (simp add: example_start(4) example_filteredNodes)
  have m: "categoryNodes (nodes ?s) (filteredNodes (nodes ?s) (currentFilter ?s)) ''A'' = [0, 2]"
    unfolding F by (simp add: example_start(4) example_nodes example_layout_data)
  have a: "n_fy (nodes (createHierarchicalLayout ?s) ! 0) = Some 0"
    using hierarchical_member [of 0 ?s 0, unfolded F]
    by (simp add: example_start(4,6,7) example_nodes example_layout_data)
  have b: "n_fy (nodes (createHierarchicalLayout ?s) ! 2) = Some 0"
    using hierarchical_member [of 0 ?s 1, unfolded F]
    by (simp add: example_start(4,6,7) example_nodes example_layout_data)
  from m a b show ?thesis by blast
qed

subsection \<open>The radial loop\<close>

lemma radialLoop_Cons:
  "radialLoop cx cy st cats rnd j (r # rs) ns =
     radialLoop cx cy st cats rnd (Suc j) rs
       (setPin r
          (Some (cx + (200 + rnd j * 100) * cos (of_int (indexOf cats (n_category (ns ! r))) * st)))
          (Some (cy + (200 + rnd j * 100) * sin (of_int (indexOf cats (n_category (ns ! r))) * st)))
          ns)"
  by (simp add: Let_def)

lemma radialLoop_length: "length (radialLoop cx cy st cats rnd j rs ns) = length ns"
  by (induction rs arbitrary: j ns) (simp_all add: Let_def setPin_length)

lemma radialLoop_other:
  "i \<notin> set rs \<Longrightarrow> radialLoop cx cy st cats rnd j rs ns ! i = ns ! i"
  by (induction rs arbitrary: j ns) (auto simp: Let_def setPin_def)

lemma radialLoop_member:
  assumes "distinct rs" and "\<forall>r \<in> set rs. r < length ns" and "n < length rs"
  shows "radialLoop cx cy st cats rnd j rs ns ! (rs ! n) =
     (ns ! (rs ! n))
       \<lparr>n_fx := Some (cx + (200 + rnd (j + n) * 100) *
            cos (of_int (indexOf cats (n_category (ns ! (rs ! n)))) * st)),
        n_fy := Some (cy + (200 + rnd (j + n) * 100) *
            sin (of_int (indexOf cats (n_category (ns ! (rs ! n)))) * st))\<rparr>"
  using assms
proof (induction rs arbitrary: j ns n)
  case Nil
  from Nil.prems(3) show ?case by simp
next
  case (Cons r rs)
  let ?a = "of_int (indexOf cats (n_category (ns ! r))) * st"
  let ?ns1 = "setPin r (Some (cx + (200 + rnd j * 100) * cos ?a))
      (Some (cy + (200 + rnd j * 100) * sin ?a)) ns"
  from Cons.prems have rnew: "r \<notin> set rs" and rlt: "r < length ns" by auto
  show ?case
  proof (cases n)
    case 0
    have e1: "radialLoop cx cy st cats rnd (Suc j) rs ?ns1 ! r = ?ns1 ! r"
      using rnew by (rule radialLoop_other)
    have e2: "?ns1 ! r =
        (ns ! r)\<lparr>n_fx := Some (cx + (200 + rnd j * 100) * cos ?a),
          n_fy := Some (cy + (200 + rnd j * 100) * sin ?a)\<rparr>"
      using rlt by (simp add: setPin_nth)
    show ?thesis
      unfolding radialLoop_Cons using 0 e1 e2 by simp
  next
    case (Suc m)
    from Suc Cons.prems(3) have m: "m < length rs" by simp
    from Cons.prems(1) have d: "distinct rs" by simp
    from Cons.prems(2) have b: "\<forall>q \<in> set rs. q < length ?ns1"
      by (simp add: setPin_length)
    from m have mem: "rs ! m \<in> set rs" by (rule nth_mem)
    with rnew have ne: "rs ! m \<noteq> r" by auto
    from mem Cons.prems(2) have lt: "rs ! m < length ns" by simp
    have same: "?ns1 ! (rs ! m) = ns ! (rs ! m)"
      using ne lt by (simp add: setPin_nth)
    have ih: "radialLoop cx cy st cats rnd (Suc j) rs ?ns1 ! (rs ! m) =
        (?ns1 ! (rs ! m))
          \<lparr>n_fx := Some (cx + (200 + rnd (Suc j + m) * 100) *
               cos (of_int (indexOf cats (n_category (?ns1 ! (rs ! m)))) * st)),
           n_fy := Some (cy + (200 + rnd (Suc j + m) * 100) *
               sin (of_int (indexOf cats (n_category (?ns1 ! (rs ! m)))) * st))\<rparr>"
      by (rule Cons.IH [OF d b m])
    have nth_eq: "(r # rs) ! n = rs ! m"
      using Suc by simp
    have idx: "Suc j + m = j + n"
      using Suc by simp
    show ?thesis
      unfolding radialLoop_Cons nth_eq ih same idx by (rule refl)
  qed
qed

lemma radial_member:
  assumes "n < length (filteredNodes (nodes s) (currentFilter s))"
  shows "nodes (createRadialLayout rnd s) ! (filteredNodes (nodes s) (currentFilter s) ! n) =
     (nodes s ! (filteredNodes (nodes s) (currentFilter s) ! n))
       \<lparr>n_fx := Some (real (clientWidth s) / 2 + (200 + rnd n * 100) *
            cos (of_int (indexOf (categoriesOf (nodes s) (filteredNodes (nodes s) (currentFilter s)))
                   (n_category (nodes s ! (filteredNodes (nodes s) (currentFilter s) ! n)))) *
                 (2 * pi / real (length (categoriesOf (nodes s)
                   (filteredNodes (nodes s) (currentFilter s))))))),
        n_fy := Some (real (clientHeight s) / 2 + (200 + rnd n * 100) *
            sin (of_int (indexOf (categoriesOf (nodes s) (filteredNodes (nodes s) (currentFilter s)))
                   (n_category (nodes s ! (filteredNodes (nodes s) (currentFilter s) ! n)))) *
                 (2 * pi / real (length (categoriesOf (nodes s)
                   (filteredNodes (nodes s) (currentFilter s)))))))\<rparr>"
proof -
  let ?F = "filteredNodes (nodes s) (currentFilter s)"
  have d: "distinct ?F" by (rule filteredNodes_distinct)
  have b: "\<forall>r \<in> set ?F. r < length (nodes s)" by (simp add: filteredNodes_bound)
  from radialLoop_member [OF d b assms, of _ _ _ _ _ 0]
  show ?thesis
    by (simp add: createRadialLayout_def Let_def)
qed

lemma category_index_range:
  assumes "r \<in> set fn"
  shows "0 \<le> indexOf (categoriesOf ns fn) (n_category (ns ! r))
    \<and> indexOf (categoriesOf ns fn) (n_category (ns ! r)) < int (length (categoriesOf ns fn))"
proof -
  from assms have "n_category (ns ! r) \<in> set (categoriesOf ns fn)"
    by (simp add: categoriesOf_def newSet_set)
  from indexOf_range [OF this] show ?thesis by simp
qed

lemma category_angles:
  "(\<lambda>r. real_of_int (indexOf (categoriesOf ns fn) (n_category (ns ! r))) * st) ` set fn =
     (\<lambda>i. real i * st) ` {..<length (categoriesOf ns fn)}"
proof (intro set_eqI iffI)
  fix a
  assume "a \<in> (\<lambda>r. real_of_int (indexOf (categoriesOf ns fn) (n_category (ns ! r))) * st) ` set fn"
  then obtain r where r: "r \<in> set fn"
    and a: "a = real_of_int (indexOf (categoriesOf ns fn) (n_category (ns ! r))) * st"
    by blast
  let ?c = "indexOf (categoriesOf ns fn) (n_category (ns ! r))"
  from category_index_range [OF r, of ns] have "0 \<le> ?c" and "nat ?c < length (categoriesOf ns fn)"
    by (simp_all add: nat_less_iff)
  then have "nat ?c \<in> {..<length (categoriesOf ns fn)}" and "real (nat ?c) = real_of_int ?c"
    by simp_all
  with a show "a \<in> (\<lambda>i. real i * st) ` {..<length (categoriesOf ns fn)}"
    by (metis (no_types, lifting) image_eqI)
next
  fix a
  assume "a \<in> (\<lambda>i. real i * st) ` {..<length (categoriesOf ns fn)}"
  then obtain i where i: "i < length (categoriesOf ns fn)" and a: "a = real i * st"
    by auto
  have dc: "distinct (categoriesOf ns fn)"
    by (simp add: categoriesOf_def newSet_distinct)
  from i have "categoriesOf ns fn ! i \<in> set (categoriesOf ns fn)" by (rule nth_mem)
  then obtain r where r: "r \<in> set fn" and c: "n_category (ns ! r) = categoriesOf ns fn ! i"
    by (auto simp: categoriesOf_def newSet_set)
  from indexOf_nth [OF dc i] c
  have "indexOf (categoriesOf ns fn) (n_category (ns ! r)) = int i" by simp
  with a r show "a \<in> (\<lambda>r. real_of_int (indexOf (categoriesOf ns fn) (n_category (ns ! r))) * st) ` set fn"
    by (auto simp: image_iff intro!: bexI [of _ r])
qed

lemma card_angles: "st \<noteq> 0 \<Longrightarrow> card ((\<lambda>i. real i * st) ` {..<k}) = k"
proof -
  assume "st \<noteq> 0"
  then have "inj_on (\<lambda>i. real i * st) {..<k}"
    by (auto simp: inj_on_def)
  then show ?thesis by (simp add: card_image)
qed

text \<open>
  C6. Let the filtered node set be non-empty, with k distinct categories in order of first
  occurrence, and let every value of the random source lie in [0, 1). The radial layout
  pins the j-th filtered node at the centre of the viewport plus
  (d cos a, d sin a), where a is the index of the node's category times 2 pi / k and
  d = 200 + jitter with the jitter, 100 times the j-th random value, in [0, 100). The
  category index lies in 0..k-1, so the angles given to the filtered nodes are exactly
  the k multiples i * 2 pi / k for i < k, and they are k different values, however many
  nodes share a category.
\<close>

theorem radial_layout_positions:
  "\<forall>j. 0 \<le> rnd j \<and> rnd j < 1 \<Longrightarrow>
   filteredNodes (nodes s) (currentFilter s) \<noteq> [] \<Longrightarrow>
   (let F = filteredNodes (nodes s) (currentFilter s);
        cats = categoriesOf (nodes s) F;
        k = length cats;
        angleStep = 2 * pi / real k;
        angle = (\<lambda>r. real_of_int (indexOf cats (n_category (nodes s ! r))) * angleStep);
        s' = createRadialLayout rnd s
    in (\<forall>j < length F.
          n_fx (nodes s' ! (F ! j)) =
            Some (real (clientWidth s) / 2 + (200 + rnd j * 100) * cos (angle (F ! j)))
        \<and> n_fy (nodes s' ! (F ! j)) =
            Some (real (clientHeight s) / 2 + (200 + rnd j * 100) * sin (angle (F ! j)))
        \<and> 0 \<le> rnd j * 100 \<and> rnd j * 100 < 100)
     \<and> (\<forall>r \<in> set F. 0 \<le> indexOf cats (n_category (nodes s ! r))
          \<and> indexOf cats (n_category (nodes s ! r)) < int k)
     \<and> angle ` set F = (\<lambda>i. real i * angleStep) ` {..<k}
     \<and> card (angle ` set F) = k
     \<and> 0 < k)"
proof -
  assume rnd: "\<forall>j. 0 \<le> rnd j \<and> rnd j < 1"
  assume ne: "filteredNodes (nodes s) (currentFilter s) \<noteq> []"
  let ?F = "filteredNodes (nodes s) (currentFilter s)"
  let ?cats = "categoriesOf (nodes s) ?F"
  let ?k = "length ?cats"
  let ?st = "2 * pi / real ?k"
  from ne have "set ?cats \<noteq> {}"
    by (simp add: categoriesOf_def newSet_set)
  then have k: "0 < ?k" by auto
  then have st: "?st \<noteq> 0" by simp
  have pos: "n_fx (nodes (createRadialLayout rnd s) ! (?F ! j)) =
        Some (real (clientWidth s) / 2 + (200 + rnd j * 100) *
          cos (real_of_int (indexOf ?cats (n_category (nodes s ! (?F ! j)))) * ?st))
      \<and> n_fy (nodes (createRadialLayout rnd s) ! (?F ! j)) =
        Some (real (clientHeight s) / 2 + (200 + rnd j * 100) *
          sin (real_of_int (indexOf ?cats (n_category (nodes s ! (?F ! j)))) * ?st))"
    if "j < length ?F" for j
    using radial_member [OF that, of rnd] by simp
  have jit: "0 \<le> rnd j * 100 \<and> rnd j * 100 < 100" for j
    using rnd [rule_format, of j] by simp
  have idx: "0 \<le> indexOf ?cats (n_category (nodes s ! r))
      \<and> indexOf ?cats (n_category (nodes s ! r)) < int ?k" if "r \<in> set ?F" for r
    using that by (rule category_index_range)
  have img: "(\<lambda>r. real_of_int (indexOf ?cats (n_category (nodes s ! r))) * ?st) ` set ?F =
      (\<lambda>i. real i * ?st) ` {..<?k}"
    by (rule category_angles)
  have crd: "card ((\<lambda>r. real_of_int (indexOf ?cats (n_category (nodes s ! r))) * ?st) ` set ?F) = ?k"
    unfolding img using st by (rule card_angles)
  show ?thesis
    unfolding Let_def using pos jit idx img crd k by blast
qed

theorem radial_layout_positions_witness:
  "filteredNodes (nodes (exampleStart 800 600))
      (currentFilter (exampleStart 800 600)) = [0, 1, 2]
   \<and> n_fx (nodes (createRadialLayout (\<lambda>j. 1 / 2) (exampleStart 800 600)) ! 0) =
        Some 650
   \<and> n_fy (nodes (createRadialLayout (\<lambda>j. 1 / 2) (exampleStart 800 600)) ! 0) =
        Some 300
   \<and> n_fx (nodes (createRadialLayout (\<lambda>j. 1 / 2) (exampleStart 800 600)) ! 1) =
        Some 150
   \<and> n_fy (nodes (createRadialLayout (\<lambda>j. 1 / 2) (exampleStart 800 600)) ! 1) =
        Some 300
   \<and> n_fx (nodes (createRadialLayout (\<lambda>j. 1 / 2) (exampleStart 800 600)) ! 2) =
        Some 650
   \<and> card ((\<lambda>r. real_of_int (indexOf [''A'', ''B''] (n_category (nodes (exampleStart 800 600) ! r))) * pi)
        ` {0, 1, 2}) = 2"
proof -
  let ?s = "exampleStart 800 600"
  have rnd: "\<forall>j::nat. 0 \<le> (1 / 2 :: real) \<and> (1 / 2 :: real) < 1" by simp
  have F: "filteredNodes (nodes ?s) (currentFilter ?s) = [0, 1, 2]"
    by (simp add: example_start(4) example_filteredNodes)
  have ne: "filteredNodes (nodes ?s) (currentFilter ?s) \<noteq> []"
    by (simp add: F)
  have ix: "indexOf [''A'', ''B''] ''A'' = 0" "indexOf [''A'', ''B''] ''B'' = 1"
    by (simp_all add: Let_def)
  note t = radial_layout_positions [of "\<lambda>j. 1 / 2" ?s, OF rnd ne, unfolded Let_def F]
  have a: "n_fx (nodes (createRadialLayout (\<lambda>j. 1 / 2) ?s) ! 0) = Some 650
      \<and> n_fy (nodes (createRadialLayout (\<lambda>j. 1 / 2) ?s) ! 0) = Some 300"
    using t [THEN conjunct1, rule_format, of 0]
    by (simp add: example_start(4,6,7) example_nodes example_layout_data ix)
  have b: "n_fx (nodes (createRadialLayout (\<lambda>j. 1 / 2) ?s) ! 1) = Some 150
      \<and> n_fy (nodes (createRadialLayout (\<lambda>j. 1 / 2) ?s) ! 1) = Some 300"
    using t [THEN conjunct1, rule_format, of 1]
    by (simp add: example_start(4,6,7) example_nodes example_layout_data ix)
  have c: "n_fx (nodes (createRadialLayout (\<lambda>j. 1 / 2) ?s) ! 2) = Some 650"
    using t [THEN conjunct1, rule_format, of 2]
    by (simp add: example_start(4,6,7) example_nodes example_layout_data ix)
  have d: "card ((\<lambda>r. real_of_int (indexOf [''A'', ''B''] (n_category (nodes (exampleStart 800 600) ! r))) * pi)
        ` {0, 1, 2}) = 2"
    using t [THEN conjunct2, THEN conjunct2, THEN conjunct2, THEN conjunct1]
    by (simp add: example_start(4) example_nodes example_layout_data)
  from F a b c d show ?thesis by blast
qed

end
